theory Spec2Isabelle
  imports Complex_Main "HOL-Library.Sublist"
begin

chapter \<open>YouTube Tweaks: the tweak framework and its plug-ins\<close>

text \<open>
  A shallow embedding of \<^verbatim>\<open>src/main.js\<close> (and, where the two differ, of the older variant
  \<^verbatim>\<open>src/unnamed/part_000\<close>). JavaScript numbers are modelled by rationals: every number the
  properties below compute with (times in seconds, playback rates, list indices) is a finite
  value, and the concrete ones are exactly representable. A quotient that JavaScript would
  evaluate to \<^verbatim>\<open>Infinity\<close> or \<^verbatim>\<open>NaN\<close> has no rational value and is \<open>None\<close>.
\<close>

section \<open>Numbers and strings of the host language\<close>

definition digit_char :: "nat \<Rightarrow> char" where
  "digit_char n = ''0123456789'' ! n"

text \<open>Decimal digits of a natural number, most significant first.\<close>

function natToString :: "nat \<Rightarrow> string" where
  "natToString n =
     (if n < 10 then [digit_char n] else natToString (n div 10) @ [digit_char (n mod 10)])"
  by pat_completeness auto
termination
  by (relation "measure id") auto

declare natToString.simps [simp del]

definition intToString :: "int \<Rightarrow> string" where
  "intToString i = (if i < 0 then CHR ''-'' # natToString (nat (- i)) else natToString (nat i))"

text \<open>
  \<^verbatim>\<open>Number.prototype.toString\<close> on a rational: the integer part, then the decimal expansion of
  the fractional part (cut after 17 digits). It agrees with JavaScript on integers and on the
  decimal fractions with a short expansion, such as every rate of the default ladder.
\<close>

fun fracDigits :: "nat \<Rightarrow> rat \<Rightarrow> string" where
  "fracDigits 0 r = []"
| "fracDigits (Suc k) r =
     (if r = 0 then []
      else digit_char (nat \<lfloor>r * 10\<rfloor>) # fracDigits k (r * 10 - of_int \<lfloor>r * 10\<rfloor>))"

definition numberToString :: "rat \<Rightarrow> string" where
  "numberToString r =
     (let a = \<bar>r\<bar>; i = \<lfloor>a\<rfloor>; f = a - of_int i
      in (if r < 0 then ''-'' else '''') @ natToString (nat i) @
         (if f = 0 then '''' else ''.'' @ fracDigits 17 f))"

text \<open>
  The variables \<^verbatim>\<open>d\<close>, \<^verbatim>\<open>h\<close>, \<^verbatim>\<open>m\<close>, \<^verbatim>\<open>s\<close> of \<^verbatim>\<open>secsToDisplayFormat\<close> hold an integer at first
  and a string once they are blanked or padded; the comparisons \<^verbatim>\<open>==\<close>, \<^verbatim>\<open>!=\<close> and \<^verbatim>\<open><\<close>
  convert a string operand to a number. The only strings that reach them are the empty string
  and \<^verbatim>\<open>"0"\<close> followed by the decimal form of an integer: the empty string converts to 0, a
  string of digits to its value, anything else (\<^verbatim>\<open>"0-5"\<close>) to \<^verbatim>\<open>NaN\<close>, here \<open>None\<close>.
\<close>

datatype jsval = Num int | Str string

fun toStr :: "jsval \<Rightarrow> string" where
  "toStr (Num n) = intToString n"
| "toStr (Str s) = s"

definition digit_value :: "char \<Rightarrow> nat option" where
  "digit_value c = map_of (zip ''0123456789'' [0, 1, 2, 3, 4, 5, 6, 7, 8, 9]) c"

fun parseDigits :: "nat \<Rightarrow> string \<Rightarrow> nat option" where
  "parseDigits acc [] = Some acc"
| "parseDigits acc (c # cs) =
     (case digit_value c of None \<Rightarrow> None | Some v \<Rightarrow> parseDigits (acc * 10 + v) cs)"

fun toNumber :: "jsval \<Rightarrow> int option" where
  "toNumber (Num n) = Some n"
| "toNumber (Str s) = map_option int (parseDigits 0 s)"

text \<open>\<^verbatim>\<open>v == k\<close> and \<^verbatim>\<open>v < k\<close> for a number \<open>k\<close>; both are false when \<open>v\<close> converts to \<^verbatim>\<open>NaN\<close>.\<close>

definition looseEq :: "jsval \<Rightarrow> int \<Rightarrow> bool" where
  "looseEq v k = (toNumber v = Some k)"

definition lessThan_js :: "jsval \<Rightarrow> int \<Rightarrow> bool" where
  "lessThan_js v k = (case toNumber v of None \<Rightarrow> False | Some n \<Rightarrow> n < k)"

definition js_div :: "rat \<Rightarrow> rat \<Rightarrow> rat option" where
  "js_div a b = (if b = 0 then None else Some (a / b))"


section \<open>EffectiveTimeDisplay\<close>

text \<open>
  \<^verbatim>\<open>secsToDisplayFormat(secs)\<close>: days, hours, minutes and seconds by repeated
  \<^verbatim>\<open>Math.floor\<close>, then blanking of leading zero fields and zero padding, in the order of the
  source.
\<close>

definition secsToDisplayFormat :: "rat \<Rightarrow> string" where
  "secsToDisplayFormat secs =
     (let d = \<lfloor>secs / 86400\<rfloor>;
          secs1 = secs - of_int d * 86400;
          h = \<lfloor>secs1 / 3600\<rfloor>;
          secs2 = secs1 - of_int h * 3600;
          m = \<lfloor>secs2 / 60\<rfloor>;
          secs3 = secs2 - of_int m * 60;
          s = \<lfloor>secs3\<rfloor>;
          separator = '':'';
          msSeparator = separator;
          (d1, dhSeparator) =
             (if looseEq (Num d) 0 then (Str '''', '''') else (Num d, separator));
          (h1, hmSeparator) =
             (if looseEq d1 0 \<and> looseEq (Num h) 0 then (Str '''', '''') else (Num h, separator));
          h2 = (if lessThan_js h1 10 \<and> \<not> looseEq d1 0 then Str (''0'' @ toStr h1) else h1);
          m1 = (if lessThan_js (Num m) 10 \<and> (\<not> looseEq d1 0 \<or> \<not> looseEq h2 0)
                then Str (''0'' @ toStr (Num m)) else Num m);
          s1 = (if lessThan_js (Num s) 10 then Str (''0'' @ toStr (Num s)) else Num s)
      in toStr d1 @ dhSeparator @ toStr h2 @ hmSeparator @ toStr m1 @ msSeparator @ toStr s1)"

text \<open>
  The first half of \<^verbatim>\<open>effTimeStrings(current, duration, rate)\<close>: the effective current time,
  the effective duration and the rate label. \<^verbatim>\<open>!rate\<close> holds of the number 0.
\<close>

definition effTimes :: "rat \<Rightarrow> rat \<Rightarrow> rat \<Rightarrow> (rat \<times> rat \<times> string) option" where
  "effTimes cur dur rate =
     (if rate = 0 \<or> rate = 1 then Some (cur, dur, '''')
      else (case (js_div cur rate, js_div dur rate) of
              (Some effCurrent, Some effDuration) \<Rightarrow>
                 Some (effCurrent, effDuration, '' ('' @ numberToString rate @ ''x)'')
            | _ \<Rightarrow> None))"

record tdStrings =
  current :: string
  duration :: string
  playbackRate :: string

definition effTimeStrings :: "rat \<Rightarrow> rat \<Rightarrow> rat \<Rightarrow> tdStrings option" where
  "effTimeStrings cur dur rate =
     (case effTimes cur dur rate of
        None \<Rightarrow> None
      | Some (effCurrent, effDuration, rateStr) \<Rightarrow>
          Some \<lparr>current = secsToDisplayFormat effCurrent,
                duration = secsToDisplayFormat effDuration,
                playbackRate = rateStr\<rparr>)"


section \<open>ModPlaybackRate\<close>

text \<open>
  The tweak holds the ladder \<^verbatim>\<open>playbackRates\<close> and the time \<^verbatim>\<open>timerStart\<close> (milliseconds) at
  which a boundary of the native range was last reached. Its constructor replaces an empty
  ladder by the default one.
\<close>

record modPlaybackRate =
  playbackRates :: "rat list"
  timerStart :: int

definition defaultPlaybackRates :: "rat list" where
  "defaultPlaybackRates =
     [1 / 10, 3 / 20, 1 / 5, 1 / 4, 1 / 2, 3 / 4, 1, 5 / 4, 3 / 2,
      7 / 4, 2, 5 / 2, 3, 4, 5, 6, 8, 10]"

definition ModPlaybackRate_new :: "rat list \<Rightarrow> int \<Rightarrow> modPlaybackRate" where
  "ModPlaybackRate_new rates now =
     \<lparr>playbackRates = (if rates = [] then defaultPlaybackRates else rates),
      timerStart = now\<rparr>"

text \<open>
  The search loop of \<^verbatim>\<open>nextRate\<close> over \<^verbatim>\<open>Object.entries(this.playbackRates)\<close>: the index of
  the first ladder entry equal to \<^verbatim>\<open>oldRate\<close>, or that index minus one half at the first
  entry above it; the initial value if the loop never breaks.
\<close>

fun closestIdx :: "nat \<Rightarrow> rat list \<Rightarrow> rat \<Rightarrow> rat \<Rightarrow> rat" where
  "closestIdx i [] oldRate initial = initial"
| "closestIdx i (rate # rest) oldRate initial =
     (if oldRate < rate then of_nat i - 1 / 2
      else if oldRate = rate then of_nat i - 0
      else closestIdx (Suc i) rest oldRate initial)"

definition Math_trunc :: "rat \<Rightarrow> int" where
  "Math_trunc x = (if 0 \<le> x then \<lfloor>x\<rfloor> else \<lceil>x\<rceil>)"

text \<open>
  \<^verbatim>\<open>nextRate(oldRate, direction)\<close>. Reading the ladder outside its indices gives
  \<^verbatim>\<open>undefined\<close>, here \<open>None\<close>; this happens only for an empty ladder.
\<close>

definition nextRate :: "rat list \<Rightarrow> rat \<Rightarrow> int \<Rightarrow> rat option" where
  "nextRate rates oldRate direction =
     (let closestPlaybackRateIdx =
            closestIdx 0 rates oldRate (of_int (int (length rates) - 1));
          playbackRateIdx = Math_trunc (closestPlaybackRateIdx + of_int direction);
          playbackRateIdx = max 0 (min (int (length rates) - 1) playbackRateIdx)
      in if playbackRateIdx < int (length rates)
         then Some (rates ! nat playbackRateIdx) else None)"

text \<open>Repeated stepping along the ladder alone, one direction per step.\<close>

fun nextRates :: "rat list \<Rightarrow> int list \<Rightarrow> rat \<Rightarrow> rat option" where
  "nextRates rates [] rate = Some rate"
| "nextRates rates (direction # ds) rate =
     (case nextRate rates rate direction of
        None \<Rightarrow> None
      | Some newRate \<Rightarrow> nextRates rates ds newRate)"

text \<open>
  What the stepping touches of a player: the rate of its media element, the advertisement
  state of the native widget (\<open>-1\<close>: no advertisement) and the text of the on-screen display.
\<close>

record ratePlayer =
  videoPlaybackRate :: rat
  adState :: int
  osdText :: string

text \<open>
  \<^verbatim>\<open>moddedSetPlaybackRate(player, value)\<close>: nothing during an advertisement; otherwise the
  synthetic key event (whose native effect on the rate is overwritten), the display text, and
  the rate written to the widget and to the media element.
\<close>

definition moddedSetPlaybackRate :: "ratePlayer \<Rightarrow> rat \<Rightarrow> ratePlayer" where
  "moddedSetPlaybackRate player val =
     (if adState player \<noteq> - 1 then player
      else player\<lparr>osdText := numberToString val @ ''x'', videoPlaybackRate := val\<rparr>)"

text \<open>
  \<^verbatim>\<open>moddedStepPlaybackRate(player, direction)\<close>, with the two readings of the clock it makes.
  The result is \<open>None\<close> when \<^verbatim>\<open>nextRate\<close> is \<^verbatim>\<open>undefined\<close>.
\<close>

definition moddedStepPlaybackRate ::
  "int \<times> int \<Rightarrow> int \<Rightarrow> modPlaybackRate \<times> ratePlayer \<Rightarrow> (modPlaybackRate \<times> ratePlayer) option"
where
  "moddedStepPlaybackRate clock direction st =
     (case st of (this, player) \<Rightarrow>
      (case nextRate (playbackRates this) (videoPlaybackRate player) direction of
         None \<Rightarrow> None
       | Some newRate \<Rightarrow>
           (let isOutsideNativeRange = (newRate < 1 / 4 \<or> newRate > 2);
                now = fst clock
            in if isOutsideNativeRange \<and> now - timerStart this < 500 then Some (this, player)
               else Some (if newRate = 1 / 4 \<or> newRate = 2
                          then this\<lparr>timerStart := snd clock\<rparr> else this,
                          moddedSetPlaybackRate player newRate))))"

fun stepPlaybackRates ::
  "((int \<times> int) \<times> int) list \<Rightarrow> modPlaybackRate \<times> ratePlayer \<Rightarrow>
   (modPlaybackRate \<times> ratePlayer) option"
where
  "stepPlaybackRates [] st = Some st"
| "stepPlaybackRates ((clock, direction) # rest) st =
     (case moddedStepPlaybackRate clock direction st of
        None \<Rightarrow> None
      | Some st' \<Rightarrow> stepPlaybackRates rest st')"


section \<open>TweakedYouTubePlayer: playback quality\<close>

text \<open>
  What the quality setter touches of the native widget: the labels
  \<^verbatim>\<open>getAvailableQualityLevels()\<close> returns, best first, and the two arguments of the last
  \<^verbatim>\<open>setPlaybackQualityRange\<close> call (\<open>None\<close> for \<^verbatim>\<open>undefined\<close>).
\<close>

record qualityWidget =
  availableQualityLevels :: "string list"
  playbackQualityRange :: "string option \<times> string option"

text \<open>\<^verbatim>\<open>xs[i]\<close>: \<^verbatim>\<open>undefined\<close> outside the indices of the array.\<close>

definition js_index :: "'a list \<Rightarrow> nat \<Rightarrow> 'a option" where
  "js_index xs i = (if i < length xs then Some (xs ! i) else None)"

definition set_playbackQuality :: "string \<Rightarrow> qualityWidget \<Rightarrow> qualityWidget" where
  "set_playbackQuality quality widget =
     (let availableQualities = availableQualityLevels widget;
          quality = (if quality \<notin> set availableQualities
                     then js_index availableQualities 0 else Some quality)
      in widget\<lparr>playbackQualityRange := (quality, quality)\<rparr>)"


section \<open>Tweak: retryOnFail\<close>

text \<open>
  The chain of invocations that one call of \<^verbatim>\<open>retryOnFail(callback, interval, maxTries)\<close>
  starts. The state holds the clock (milliseconds), whatever the callback reads and writes,
  the times at which the callback has been invoked and the delays handed to
  \<^verbatim>\<open>setTimeout\<close>; a timer fires when its delay has passed. The recursion is on the retry
  budget, so the chain is finite.
\<close>

record 'w timeline =
  now :: nat
  env :: 'w
  invoked :: "nat list"
  scheduled :: "nat list"

function retryOnFail ::
  "('w \<Rightarrow> bool \<times> 'w) \<Rightarrow> nat \<Rightarrow> int \<Rightarrow> 'w timeline \<Rightarrow> 'w timeline"
where
  "retryOnFail callback interval maxTries s =
     (case callback (env s) of (success, w) \<Rightarrow>
        (if success \<or> maxTries \<le> 1
         then s\<lparr>env := w, invoked := invoked s @ [now s]\<rparr>
         else retryOnFail callback interval (maxTries - 1)
                (s\<lparr>env := w, invoked := invoked s @ [now s],
                   scheduled := scheduled s @ [interval], now := now s + interval\<rparr>)))"
  by pat_completeness auto
termination
  by (relation "measure (\<lambda>(callback, interval, maxTries, s). nat maxTries)") auto

declare retryOnFail.simps [simp del]

text \<open>
  What the callback has made of its surroundings after \<open>k\<close> invocations in a row; the
  invocation number \<open>k\<close> (counted from 0) therefore reports
  \<open>fst (callback (envAfter callback k w))\<close>.
\<close>

fun envAfter :: "('w \<Rightarrow> bool \<times> 'w) \<Rightarrow> nat \<Rightarrow> 'w \<Rightarrow> 'w" where
  "envAfter callback 0 w = w"
| "envAfter callback (Suc k) w = envAfter callback k (snd (callback w))"

text \<open>
  A callback for examples, over a counter: it counts its invocations and reports success from
  the invocation on that finds the counter at \<open>ready\<close> or above.
\<close>

definition readyAt :: "nat \<Rightarrow> nat \<Rightarrow> bool \<times> nat" where
  "readyAt ready w = (ready \<le> w, Suc w)"


section \<open>The tweak contract\<close>

text \<open>
  A DOM element is known by its identity. A tweak is a value with the six hooks of the
  abstract class \<^verbatim>\<open>Tweak\<close>. A hook is arbitrary code of the tweak: it reads and writes the
  world (the page and the tweak's own fields) and either returns or throws. Hooks are taken
  not to call back into the app nor to touch its list of players.
\<close>

type_synonym elem = nat

datatype exn = Error string

type_synonym 'w effect = "'w \<Rightarrow> exn option \<times> 'w"

record 'w tweak =
  tweakName :: string
  onAppEagerInit :: "'w effect"
  onAppInit :: "'w effect"
  onAppRefresh :: "'w effect"
  onPlayerEagerInit :: "elem \<Rightarrow> 'w effect"
  onPlayerInit :: "elem \<Rightarrow> 'w effect"
  onPlayerRefresh :: "elem \<Rightarrow> 'w effect"

text \<open>The hooks of the base class do nothing.\<close>

definition Tweak :: "string \<Rightarrow> 'w tweak" where
  "Tweak name =
     \<lparr>tweakName = name,
      onAppEagerInit = (\<lambda>w. (None, w)), onAppInit = (\<lambda>w. (None, w)),
      onAppRefresh = (\<lambda>w. (None, w)),
      onPlayerEagerInit = (\<lambda>player w. (None, w)), onPlayerInit = (\<lambda>player w. (None, w)),
      onPlayerRefresh = (\<lambda>player w. (None, w))\<rparr>"

datatype EVENTS = INIT | REFRESH

datatype hook =
  OnAppEagerInit | OnAppInit | OnAppRefresh | OnPlayerEagerInit | OnPlayerInit | OnPlayerRefresh

datatype receiver = TheApp | ThePlayer elem

text \<open>One hook invocation: the tweak, the hook, and the app or player it is given.\<close>

type_synonym call = "string \<times> hook \<times> receiver"


section \<open>TweakedYouTubeApp and TweakedYouTubePlayer: the lifecycle\<close>

record player =
  element :: elem
  isUIEnabled :: bool
  ignoreNextUIMutation :: bool

text \<open>
  The state of the app: its tracked players in the order they were pushed, the world the
  hooks act on, and the history of hook invocations, which the source does not keep and the
  properties are stated on.
\<close>

record 'w app =
  players :: "player list"
  world :: 'w
  trace :: "call list"

text \<open>
  A \<^verbatim>\<open>for ... of\<close> loop whose body may throw: the exception leaves the loop at once, with
  the state as the body left it.
\<close>

fun forEach :: "('a \<Rightarrow> 's \<Rightarrow> exn option \<times> 's) \<Rightarrow> 'a list \<Rightarrow> 's \<Rightarrow> exn option \<times> 's" where
  "forEach body [] s = (None, s)"
| "forEach body (x # xs) s =
     (case body x s of
        (Some e, s') \<Rightarrow> (Some e, s')
      | (None, s') \<Rightarrow> forEach body xs s')"

text \<open>One statement after another.\<close>

definition andThen ::
  "('s \<Rightarrow> exn option \<times> 's) \<Rightarrow> ('s \<Rightarrow> exn option \<times> 's) \<Rightarrow> 's \<Rightarrow> exn option \<times> 's" where
  "andThen f g s = (case f s of (Some e, s') \<Rightarrow> (Some e, s') | (None, s') \<Rightarrow> g s')"

definition invoke :: "call \<Rightarrow> 'w effect \<Rightarrow> 'w app \<Rightarrow> exn option \<times> 'w app" where
  "invoke c f s = (case f (world s) of (r, w) \<Rightarrow> (r, s\<lparr>world := w, trace := trace s @ [c]\<rparr>))"

text \<open>\<^verbatim>\<open>TweakedYouTubeApp.applyEagerTweaks\<close> and \<^verbatim>\<open>TweakedYouTubeApp.applyTweaks(event)\<close>.\<close>

definition applyEagerTweaks :: "'w tweak list \<Rightarrow> 'w app \<Rightarrow> exn option \<times> 'w app" where
  "applyEagerTweaks tweaks =
     forEach (\<lambda>tweak. invoke (tweakName tweak, OnAppEagerInit, TheApp) (onAppEagerInit tweak))
       tweaks"

definition applyTweaks :: "EVENTS \<Rightarrow> 'w tweak list \<Rightarrow> 'w app \<Rightarrow> exn option \<times> 'w app" where
  "applyTweaks event tweaks =
     forEach (\<lambda>tweak.
        (case event of
           INIT \<Rightarrow> invoke (tweakName tweak, OnAppInit, TheApp) (onAppInit tweak)
         | REFRESH \<Rightarrow> invoke (tweakName tweak, OnAppRefresh, TheApp) (onAppRefresh tweak)))
       tweaks"

text \<open>
  \<^verbatim>\<open>TweakedYouTubePlayer.applyEagerTweaks\<close> and \<^verbatim>\<open>TweakedYouTubePlayer.applyTweaks(event)\<close>,
  for the player of the given element.
\<close>

definition Player_applyEagerTweaks ::
  "'w tweak list \<Rightarrow> elem \<Rightarrow> 'w app \<Rightarrow> exn option \<times> 'w app" where
  "Player_applyEagerTweaks tweaks el =
     forEach (\<lambda>tweak.
        invoke (tweakName tweak, OnPlayerEagerInit, ThePlayer el) (onPlayerEagerInit tweak el))
       tweaks"

definition Player_applyTweaks ::
  "EVENTS \<Rightarrow> 'w tweak list \<Rightarrow> elem \<Rightarrow> 'w app \<Rightarrow> exn option \<times> 'w app" where
  "Player_applyTweaks event tweaks el =
     forEach (\<lambda>tweak.
        (case event of
           INIT \<Rightarrow> invoke (tweakName tweak, OnPlayerInit, ThePlayer el) (onPlayerInit tweak el)
         | REFRESH \<Rightarrow>
             invoke (tweakName tweak, OnPlayerRefresh, ThePlayer el) (onPlayerRefresh tweak el)))
       tweaks"

text \<open>
  The constructor of \<^verbatim>\<open>TweakedYouTubePlayer\<close>: the eager hooks of all tweaks, then their
  init hooks; the new wrapper, or the exception of the hook that threw.
\<close>

definition TweakedYouTubePlayer_new ::
  "'w tweak list \<Rightarrow> elem \<Rightarrow> 'w app \<Rightarrow> (exn + player) \<times> 'w app" where
  "TweakedYouTubePlayer_new tweaks el s =
     (case andThen (Player_applyEagerTweaks tweaks el) (Player_applyTweaks INIT tweaks el) s of
        (Some e, s') \<Rightarrow> (Inl e, s')
      | (None, s') \<Rightarrow>
          (Inr \<lparr>element = el, isUIEnabled = True, ignoreNextUIMutation = False\<rparr>, s'))"

text \<open>
  \<^verbatim>\<open>updatePlayers\<close>, over the elements of class \<^verbatim>\<open>html5-video-player\<close> in document order.
  \<^verbatim>\<open>isNew\<close> holds when no tracked player has the element.
\<close>

definition updatePlayers_body :: "'w tweak list \<Rightarrow> elem \<Rightarrow> 'w app \<Rightarrow> exn option \<times> 'w app" where
  "updatePlayers_body tweaks el s =
     (let isNew = (find (\<lambda>e. element e = el) (players s) = None)
      in if isNew
         then (case TweakedYouTubePlayer_new tweaks el s of
                 (Inl e, s') \<Rightarrow> (Some e, s')
               | (Inr player, s') \<Rightarrow> (None, s'\<lparr>players := players s' @ [player]\<rparr>))
         else (None, s))"

definition updatePlayers :: "'w tweak list \<Rightarrow> elem list \<Rightarrow> 'w app \<Rightarrow> exn option \<times> 'w app" where
  "updatePlayers tweaks document = forEach (updatePlayers_body tweaks) document"

text \<open>Calling \<^verbatim>\<open>updatePlayers\<close> \<open>n\<close> times in a row on the same document.\<close>

fun updatePlayers_times :: "nat \<Rightarrow> 'w tweak list \<Rightarrow> elem list \<Rightarrow> 'w app \<Rightarrow> 'w app" where
  "updatePlayers_times 0 tweaks document s = s"
| "updatePlayers_times (Suc n) tweaks document s =
     updatePlayers_times n tweaks document (snd (updatePlayers tweaks document s))"

text \<open>
  \<^verbatim>\<open>refreshHandler\<close>: discovery, the app-level refresh fan-out, then the loop over
  \<^verbatim>\<open>this.players\<close> with the player-level refresh fan-out as its body.
\<close>

definition refreshPlayers :: "'w tweak list \<Rightarrow> player list \<Rightarrow> 'w app \<Rightarrow> exn option \<times> 'w app" where
  "refreshPlayers tweaks ps =
     forEach (\<lambda>player. Player_applyTweaks REFRESH tweaks (element player)) ps"

definition refreshHandler :: "'w tweak list \<Rightarrow> elem list \<Rightarrow> 'w app \<Rightarrow> exn option \<times> 'w app" where
  "refreshHandler tweaks document =
     andThen (updatePlayers tweaks document)
       (andThen (applyTweaks REFRESH tweaks) (\<lambda>s. refreshPlayers tweaks (players s) s))"

text \<open>The constructor of \<^verbatim>\<open>TweakedYouTubeApp\<close>, up to the registration of the refresh handler.\<close>

definition TweakedYouTubeApp_new :: "'w tweak list \<Rightarrow> elem list \<Rightarrow> 'w \<Rightarrow> exn option \<times> 'w app" where
  "TweakedYouTubeApp_new tweaks document w =
     andThen (applyEagerTweaks tweaks)
       (andThen (applyTweaks INIT tweaks) (updatePlayers tweaks document))
       \<lparr>players = [], world = w, trace = []\<rparr>"

text \<open>
  The hook each fan-out calls for an event, and the invocations a fan-out over all tweaks
  makes when no hook throws.
\<close>

definition appHook :: "EVENTS \<Rightarrow> hook" where
  "appHook event = (case event of INIT \<Rightarrow> OnAppInit | REFRESH \<Rightarrow> OnAppRefresh)"

definition playerHook :: "EVENTS \<Rightarrow> hook" where
  "playerHook event = (case event of INIT \<Rightarrow> OnPlayerInit | REFRESH \<Rightarrow> OnPlayerRefresh)"

definition calls :: "hook \<Rightarrow> receiver \<Rightarrow> 'w tweak list \<Rightarrow> call list" where
  "calls h r tweaks = map (\<lambda>tweak. (tweakName tweak, h, r)) tweaks"

text \<open>
  \<^verbatim>\<open>focusedPlayer\<close>: the first tracked player whose element contains the focused element of
  the document, if any. \<^verbatim>\<open>indexOf\<close> gives the first index of its argument, or \<open>-1\<close>;
  \<^verbatim>\<open>%\<close> is the remainder with the sign of the dividend. \<^verbatim>\<open>focusNextPlayer\<close> returns the
  player whose \<^verbatim>\<open>focus()\<close> it calls, or \<open>None\<close> when it returns without focusing.
\<close>

definition focusedPlayer :: "(elem \<Rightarrow> bool) \<Rightarrow> player list \<Rightarrow> player option" where
  "focusedPlayer containsActive ps = find (\<lambda>player. containsActive (element player)) ps"

fun indexOfFrom :: "nat \<Rightarrow> 'a list \<Rightarrow> 'a \<Rightarrow> int" where
  "indexOfFrom i [] x = - 1"
| "indexOfFrom i (y # ys) x = (if y = x then int i else indexOfFrom (Suc i) ys x)"

definition indexOf :: "'a list \<Rightarrow> 'a option \<Rightarrow> int" where
  "indexOf xs x = (case x of None \<Rightarrow> - 1 | Some v \<Rightarrow> indexOfFrom 0 xs v)"

definition js_rem :: "int \<Rightarrow> int \<Rightarrow> int" where
  "js_rem a b = sgn a * (\<bar>a\<bar> mod \<bar>b\<bar>)"

definition focusNextPlayer :: "(elem \<Rightarrow> bool) \<Rightarrow> player list \<Rightarrow> player option" where
  "focusNextPlayer containsActive ps =
     (let numberOfPlayers = length ps
      in if numberOfPlayers = 0 then None
         else (let focusedPlayerIdx = indexOf ps (focusedPlayer containsActive ps);
                   focusedPlayerIdx = js_rem (focusedPlayerIdx + 1) (int numberOfPlayers)
               in if 0 \<le> focusedPlayerIdx then js_index ps (nat focusedPlayerIdx) else None))"


text \<open>
  The invocations of the player-level refresh fan-out over a list of players when no hook
  throws: player by player, and for each player tweak by tweak.
\<close>

definition refreshCalls :: "'w tweak list \<Rightarrow> player list \<Rightarrow> call list" where
  "refreshCalls tweaks ps =
     concat (map (\<lambda>player. calls OnPlayerRefresh (ThePlayer (element player)) tweaks) ps)"

text \<open>The hooks that run while a player is constructed.\<close>

definition isConstructionCall :: "call \<Rightarrow> bool" where
  "isConstructionCall c = (fst (snd c) = OnPlayerEagerInit \<or> fst (snd c) = OnPlayerInit)"


text \<open>
  What discovery keeps true from a state \<open>s\<close> to a later state \<open>s'\<close>, whether it returns or
  throws: the tracked players are extended at the end, no element gets a second wrapper, and
  the only hooks run are those of player construction.
\<close>

definition discovered :: "'w app \<Rightarrow> 'w app \<Rightarrow> bool" where
  "discovered s s' \<longleftrightarrow>
     prefix (players s) (players s')
     \<and> (distinct (map element (players s)) \<longrightarrow> distinct (map element (players s')))
     \<and> (\<exists>D. trace s' = trace s @ D \<and> (\<forall>c \<in> set D. isConstructionCall c))"

text \<open>
  Tweaks for examples, over a world that is a counter: one with the hooks of the base class,
  one whose refresh hooks always throw, one whose eager hook for the app throws, and one whose
  init hook for a player throws when the counter is 0 (the player is not ready), counts, and
  returns from then on.
\<close>

definition plainTweak :: "nat tweak" where
  "plainTweak = Tweak ''Plain''"

definition faultyTweak :: "nat tweak" where
  "faultyTweak =
     (Tweak ''Faulty'')
       \<lparr>onAppRefresh := (\<lambda>w. (Some (Error ''refresh failed''), Suc w)),
        onPlayerRefresh := (\<lambda>player w. (Some (Error ''refresh failed''), Suc w))\<rparr>"

definition hastyTweak :: "nat tweak" where
  "hastyTweak =
     (Tweak ''Hasty'')\<lparr>onAppEagerInit := (\<lambda>w. (Some (Error ''too early''), Suc w))\<rparr>"

definition flakyTweak :: "nat tweak" where
  "flakyTweak =
     (Tweak ''Flaky'')
       \<lparr>onPlayerInit :=
          (\<lambda>player w. (if w = 0 then Some (Error ''player not ready'') else None, Suc w))\<rparr>"

definition emptyApp :: "nat app" where
  "emptyApp = \<lparr>players = [], world = 0, trace = []\<rparr>"


section \<open>TweakedYouTubePlayer: the UI toggle\<close>

text \<open>
  What the toggle touches of a DOM element: its class name, its inline display style
  (\<^verbatim>\<open>element.style.display\<close>), the display the style sheets give it, the properties
  \<^verbatim>\<open>oldDisplayStyle\<close> (this version) and \<^verbatim>\<open>oldStyle\<close> (the older version) that the toggle
  adds to the element object (\<open>None\<close>: not set), and its content attributes. The computed
  display is the inline one when there is one, and the style sheets' otherwise (no style
  sheet rule is taken to be important, and keywords are not resolved).
\<close>

record node =
  className :: string
  styleDisplay :: string
  sheetDisplay :: string
  oldDisplayStyle :: "string option"
  oldStyle :: "string option"
  attributes :: "(string \<times> string) list"

definition computedDisplay :: "node \<Rightarrow> string" where
  "computedDisplay e = (if styleDisplay e = '''' then sheetDisplay e else styleDisplay e)"

text \<open>
  \<^verbatim>\<open>removeAttribute(name)\<close> removes a content attribute; the properties of the element object
  are not content attributes.
\<close>

definition removeAttribute :: "string \<Rightarrow> node \<Rightarrow> node" where
  "removeAttribute name e = e\<lparr>attributes := filter (\<lambda>a. fst a \<noteq> name) (attributes e)\<rparr>"

text \<open>
  Assigning to \<^verbatim>\<open>style.display\<close>: a string is stored; \<^verbatim>\<open>undefined\<close> is no display value and
  leaves the style as it is.
\<close>

definition set_styleDisplay :: "string option \<Rightarrow> node \<Rightarrow> node" where
  "set_styleDisplay v e = (case v of None \<Rightarrow> e | Some d \<Rightarrow> e\<lparr>styleDisplay := d\<rparr>)"

text \<open>
  The state of the toggle is the wrapper and the children of its element, in document order.
  \<^verbatim>\<open>UIElements\<close> are the children whose class name is not that of the video container; the
  loops of \<^verbatim>\<open>hideUI\<close> and \<^verbatim>\<open>showUI\<close> change each of them in place.
\<close>

definition isUIElement :: "node \<Rightarrow> bool" where
  "isUIElement e = (className e \<noteq> ''html5-video-container'')"

definition UIElements :: "node list \<Rightarrow> node list" where
  "UIElements children = filter isUIElement children"

definition hideUI :: "player \<times> node list \<Rightarrow> player \<times> node list" where
  "hideUI st =
     (case st of (this, children) \<Rightarrow>
        (this\<lparr>ignoreNextUIMutation := True, isUIEnabled := False\<rparr>,
         map (\<lambda>e. if isUIElement e
                  then e\<lparr>oldDisplayStyle := Some (styleDisplay e), styleDisplay := ''none''\<rparr>
                  else e) children))"

definition showUI :: "player \<times> node list \<Rightarrow> player \<times> node list" where
  "showUI st =
     (case st of (this, children) \<Rightarrow>
        (this\<lparr>ignoreNextUIMutation := True, isUIEnabled := True\<rparr>,
         map (\<lambda>e. if isUIElement e
                  then removeAttribute ''oldDisplayStyle'' (set_styleDisplay (oldDisplayStyle e) e)
                  else e) children))"

text \<open>\<^verbatim>\<open>toggleUI\<close>; waking up the controls changes nothing of the state above.\<close>

definition toggleUI :: "player \<times> node list \<Rightarrow> player \<times> node list" where
  "toggleUI st = (if isUIEnabled (fst st) then hideUI st else showUI st)"

text \<open>
  \<^verbatim>\<open>UIMutationHandler(mutations)\<close>, the targets of the mutations given by their positions among
  the children (a position outside the list: an element deeper in the subtree, which is not a
  UI element).
\<close>

definition UIMutationHandler :: "nat list \<Rightarrow> player \<times> node list \<Rightarrow> player \<times> node list" where
  "UIMutationHandler mutations st =
     (case st of (this, children) \<Rightarrow>
        if ignoreNextUIMutation this then (this\<lparr>ignoreNextUIMutation := False\<rparr>, children)
        else (this,
              fold (\<lambda>i cs.
                      if i < length cs \<and> isUIElement (cs ! i)
                      then cs[i := (let el = (cs ! i)\<lparr>oldDisplayStyle := Some (styleDisplay (cs ! i))\<rparr>
                                    in if \<not> isUIEnabled this then el\<lparr>styleDisplay := ''none''\<rparr>
                                       else el)]
                      else cs)
                mutations children))"

text \<open>
  The older version has \<^verbatim>\<open>toggleUI\<close> only. Its \<^verbatim>\<open>UIElements\<close> are the elements of the
  player's subtree that match one of eight selectors, one entry per match, so they are given
  here as positions in the list of the subtree's elements, and the loops change the element
  at each position in turn. Hiding records the computed display; showing restores a recorded
  display that is not empty, and sets \<^verbatim>\<open>initial\<close> otherwise.
\<close>

definition forEachAt :: "('a \<Rightarrow> 'a) \<Rightarrow> nat list \<Rightarrow> 'a list \<Rightarrow> 'a list" where
  "forEachAt f positions xs =
     fold (\<lambda>i ys. if i < length ys then ys[i := f (ys ! i)] else ys) positions xs"

definition toggleUI_old :: "nat list \<Rightarrow> player \<times> node list \<Rightarrow> player \<times> node list" where
  "toggleUI_old ui st =
     (case st of (this, elements) \<Rightarrow>
        (this\<lparr>isUIEnabled := \<not> isUIEnabled this\<rparr>,
         if isUIEnabled this
         then forEachAt (\<lambda>e. e\<lparr>oldStyle := Some (computedDisplay e), styleDisplay := ''none''\<rparr>)
                ui elements
         else forEachAt (\<lambda>e. (case oldStyle e of
                                 None \<Rightarrow> e\<lparr>styleDisplay := ''initial''\<rparr>
                               | Some d \<Rightarrow> if d \<noteq> '''' then e\<lparr>styleDisplay := d\<rparr>
                                           else e\<lparr>styleDisplay := ''initial''\<rparr>))
                ui elements))"

text \<open>
  Examples: a wrapper as its constructor leaves it, the controls bar, laid out as a flex box by
  the style sheets with no inline style, and the video container.
\<close>

definition examplePlayer :: player where
  "examplePlayer = \<lparr>element = 7, isUIEnabled = True, ignoreNextUIMutation = False\<rparr>"

definition exampleControls :: node where
  "exampleControls =
     \<lparr>className = ''ytp-chrome-bottom'', styleDisplay = '''', sheetDisplay = ''flex'',
      oldDisplayStyle = None, oldStyle = None, attributes = []\<rparr>"

definition exampleOverlay :: node where
  "exampleOverlay =
     \<lparr>className = ''ytp-chrome-top'', styleDisplay = ''flex'', sheetDisplay = ''block'',
      oldDisplayStyle = None, oldStyle = None, attributes = []\<rparr>"

definition exampleVideo :: node where
  "exampleVideo =
     \<lparr>className = ''html5-video-container'', styleDisplay = '''', sheetDisplay = ''block'',
      oldDisplayStyle = None, oldStyle = None, attributes = []\<rparr>"


section \<open>Properties of the effective time display\<close>

lemma secsToDisplayFormat_62_5: "secsToDisplayFormat (125 / 2) = ''1:02''"
  by code_simp

lemma secsToDisplayFormat_3692: "secsToDisplayFormat 3692 = ''1:01:32''"
  by code_simp

lemma numberToString_2: "numberToString 2 = ''2''"
  by code_simp

lemma effTimes_unit_rate: "effTimes cur dur 1 = Some (cur, dur, '''')"
  by (simp add: effTimes_def)

lemma effTimes_zero_rate: "effTimes cur dur 0 = Some (cur, dur, '''')"
  by (simp add: effTimes_def)

lemma effTimes_scaled:
  "rate \<noteq> 0 \<Longrightarrow> rate \<noteq> 1 \<Longrightarrow>
   effTimes cur dur rate = Some (cur / rate, dur / rate, '' ('' @ numberToString rate @ ''x)'')"
  by (simp add: effTimes_def js_div_def)

text \<open>
  C5, as the code has it. At current = 125, duration = 7384, rate = 2 the effective times are
  62.5 s and 3692 s; they are displayed as \<^verbatim>\<open>1:02\<close> (seconds floored, minutes not padded when
  there is no hour field) and \<^verbatim>\<open>1:01:32\<close>, and the rate label is \<^verbatim>\<open> (2x)\<close> with its leading
  space. At rate 1 the label is empty and both times are displayed unscaled.
\<close>

theorem effTimeStrings_example:
  "effTimes 125 7384 2 = Some (125 / 2, 3692, '' (2x)'')
   \<and> effTimeStrings 125 7384 2 =
       Some \<lparr>current = ''1:02'', duration = ''1:01:32'', playbackRate = '' (2x)''\<rparr>
   \<and> effTimeStrings cur dur 1 =
       Some \<lparr>current = secsToDisplayFormat cur, duration = secsToDisplayFormat dur,
             playbackRate = ''''\<rparr>"
proof -
  have t: "effTimes 125 7384 2 = Some (125 / 2, 3692, '' (2x)'')"
    by (simp add: effTimes_scaled numberToString_2)
  have s: "effTimeStrings 125 7384 2 =
       Some \<lparr>current = ''1:02'', duration = ''1:01:32'', playbackRate = '' (2x)''\<rparr>"
    unfolding effTimeStrings_def t
    by (simp add: secsToDisplayFormat_62_5 secsToDisplayFormat_3692)
  have u: "effTimeStrings cur dur 1 =
       Some \<lparr>current = secsToDisplayFormat cur, duration = secsToDisplayFormat dur,
             playbackRate = ''''\<rparr>"
    by (simp add: effTimeStrings_def effTimes_unit_rate)
  from t s u show ?thesis by blast
qed

lemma secsToDisplayFormat_125: "secsToDisplayFormat 125 = ''2:05''"
  by code_simp

lemma secsToDisplayFormat_7384: "secsToDisplayFormat 7384 = ''2:03:04''"
  by code_simp

theorem effTimeStrings_example_witness:
  "effTimeStrings 125 7384 2 =
       Some \<lparr>current = ''1:02'', duration = ''1:01:32'', playbackRate = '' (2x)''\<rparr>
   \<and> effTimeStrings 125 7384 1 =
       Some \<lparr>current = ''2:05'', duration = ''2:03:04'', playbackRate = ''''\<rparr>"
  using effTimeStrings_example [of 125 7384]
  by (simp add: secsToDisplayFormat_125 secsToDisplayFormat_7384)

text \<open>
  C5 as the specification words it fails: the displayed current time is not \<^verbatim>\<open>01:02\<close>.
\<close>

theorem effTimeStrings_current_not_padded:
  "map_option current (effTimeStrings 125 7384 2) \<noteq> Some ''01:02''"
proof -
  have "effTimes 125 7384 2 = Some (125 / 2, 3692, '' (2x)'')"
    by (simp add: effTimes_scaled numberToString_2)
  then show ?thesis
    by (simp add: effTimeStrings_def secsToDisplayFormat_62_5)
qed

text \<open>
  C10: a rate of 0 takes the branch of rate 1 (unscaled times, empty label), and for no rate
  at all does the function divide by zero: it always produces its three strings.
\<close>

theorem effTimeStrings_zero_rate:
  "effTimes cur dur 0 = Some (cur, dur, '''')
   \<and> effTimeStrings cur dur 0 = effTimeStrings cur dur 1
   \<and> effTimeStrings cur dur 0 =
       Some \<lparr>current = secsToDisplayFormat cur, duration = secsToDisplayFormat dur,
             playbackRate = ''''\<rparr>
   \<and> (\<exists>r. effTimeStrings cur dur rate = Some r)"
proof -
  have "\<exists>r. effTimeStrings cur dur rate = Some r"
    by (cases "rate = 0 \<or> rate = 1")
       (auto simp: effTimeStrings_def effTimes_def js_div_def)
  then show ?thesis
    by (simp add: effTimeStrings_def effTimes_zero_rate effTimes_unit_rate)
qed

theorem effTimeStrings_zero_rate_witness:
  "effTimeStrings 125 7384 0 =
       Some \<lparr>current = ''2:05'', duration = ''2:03:04'', playbackRate = ''''\<rparr>
   \<and> effTimeStrings 125 7384 0 = effTimeStrings 125 7384 1"
proof -
  note z = effTimeStrings_zero_rate [of 125 7384 0]
  from z have "effTimeStrings 125 7384 0 = effTimeStrings 125 7384 1"
    by (rule conjunct1 [OF conjunct2])
  moreover from z have "effTimeStrings 125 7384 0 =
       Some \<lparr>current = secsToDisplayFormat 125, duration = secsToDisplayFormat 7384,
             playbackRate = ''''\<rparr>"
    by (rule conjunct1 [OF conjunct2 [OF conjunct2]])
  ultimately show ?thesis
    by (simp only: secsToDisplayFormat_125 secsToDisplayFormat_7384 simp_thms)
qed


section \<open>Properties of the playback-rate ladder\<close>

lemma nextRate_in_ladder:
  assumes "rates \<noteq> []"
  shows "\<exists>r. nextRate rates oldRate direction = Some r \<and> r \<in> set rates"
proof -
  define k where
    "k = max 0 (min (int (length rates) - 1)
           (Math_trunc (closestIdx 0 rates oldRate (of_int (int (length rates) - 1))
              + of_int direction)))"
  from assms have len: "0 < length rates" by simp
  then have "0 \<le> k" "k < int (length rates)"
    by (simp_all add: k_def)
  then have "nat k < length rates" by simp
  then have "rates ! nat k \<in> set rates" by (rule nth_mem)
  moreover have "nextRate rates oldRate direction = Some (rates ! nat k)"
    using \<open>k < int (length rates)\<close> by (simp add: nextRate_def k_def Let_def)
  ultimately show ?thesis by simp
qed

lemma in_ladder_bounds:
  "r \<in> set rates \<Longrightarrow> Min (set rates) \<le> r \<and> r \<le> Max (set rates)"
  by simp

lemma nextRates_in_ladder:
  assumes "rates \<noteq> []" and "rate \<in> set rates"
  shows "\<exists>r. nextRates rates ds rate = Some r \<and> r \<in> set rates"
  using assms(2)
proof (induction ds arbitrary: rate)
  case Nil
  then show ?case by simp
next
  case (Cons direction ds)
  from nextRate_in_ladder [OF assms(1)] obtain r
    where r: "nextRate rates rate direction = Some r" "r \<in> set rates" by blast
  from Cons.IH [OF r(2)] r(1) show ?case by simp
qed

lemma moddedSetPlaybackRate_rate:
  "videoPlaybackRate (moddedSetPlaybackRate player val) \<in> {videoPlaybackRate player, val}"
  by (simp add: moddedSetPlaybackRate_def)

lemma moddedStepPlaybackRate_in_ladder:
  assumes "playbackRates this \<noteq> []"
    and "videoPlaybackRate player \<in> set (playbackRates this)"
  shows "\<exists>this' player'. moddedStepPlaybackRate clock direction (this, player) = Some (this', player')
           \<and> playbackRates this' = playbackRates this
           \<and> videoPlaybackRate player' \<in> set (playbackRates this)"
proof -
  from nextRate_in_ladder [OF assms(1)] obtain r
    where r: "nextRate (playbackRates this) (videoPlaybackRate player) direction = Some r"
      "r \<in> set (playbackRates this)" by blast
  have "videoPlaybackRate (moddedSetPlaybackRate player r) \<in> set (playbackRates this)"
    using moddedSetPlaybackRate_rate [of player r] assms(2) r(2) by auto
  with r(1) assms(2) show ?thesis
    by (simp add: moddedStepPlaybackRate_def Let_def)
qed

lemma stepPlaybackRates_in_ladder:
  assumes "playbackRates this \<noteq> []"
    and "videoPlaybackRate player \<in> set (playbackRates this)"
  shows "\<exists>this' player'. stepPlaybackRates steps (this, player) = Some (this', player')
           \<and> playbackRates this' = playbackRates this
           \<and> videoPlaybackRate player' \<in> set (playbackRates this)"
  using assms
proof (induction steps arbitrary: this player)
  case Nil
  then show ?case by simp
next
  case (Cons step steps)
  obtain clock direction where step: "step = (clock, direction)" by (cases step)
  from moddedStepPlaybackRate_in_ladder [OF Cons.prems] obtain this1 player1
    where one: "moddedStepPlaybackRate clock direction (this, player) = Some (this1, player1)"
      "playbackRates this1 = playbackRates this"
      "videoPlaybackRate player1 \<in> set (playbackRates this)" by blast
  from Cons.IH [of this1 player1] one(2,3) Cons.prems(1) obtain this' player'
    where "stepPlaybackRates steps (this1, player1) = Some (this', player')"
      "playbackRates this' = playbackRates this1"
      "videoPlaybackRate player' \<in> set (playbackRates this1)" by auto
  with one step show ?case by simp
qed

lemma five_increases: "nextRates [1 / 4, 1 / 2, 1, 2] [1, 1, 1, 1, 1] 1 = Some 2"
  by code_simp

text \<open>
  C6: on a non-empty ladder every step lands on a ladder entry, so from a rate of the ladder
  any number of steps, in any directions, at any times and in any advertisement state, leaves
  the rate between the least and the greatest entry. With the ladder 0.25, 0.5, 1, 2 and
  starting rate 1, five increases give 2. The ladder of a tweak is never empty: the
  constructor puts the default ladder in the place of an empty one.
\<close>

theorem stepPlaybackRate_within_ladder:
  assumes "playbackRates this \<noteq> []"
    and "videoPlaybackRate player \<in> set (playbackRates this)"
  shows "(\<exists>r. nextRates (playbackRates this) ds (videoPlaybackRate player) = Some r
            \<and> Min (set (playbackRates this)) \<le> r \<and> r \<le> Max (set (playbackRates this)))
       \<and> (\<exists>this' player'. stepPlaybackRates steps (this, player) = Some (this', player')
            \<and> playbackRates this' = playbackRates this
            \<and> Min (set (playbackRates this)) \<le> videoPlaybackRate player'
            \<and> videoPlaybackRate player' \<le> Max (set (playbackRates this)))
       \<and> nextRates [1 / 4, 1 / 2, 1, 2] [1, 1, 1, 1, 1] 1 = Some 2
       \<and> playbackRates (ModPlaybackRate_new rates start) \<noteq> []"
proof -
  from nextRates_in_ladder [OF assms] obtain r
    where "nextRates (playbackRates this) ds (videoPlaybackRate player) = Some r"
      "r \<in> set (playbackRates this)" by blast
  then have a: "\<exists>r. nextRates (playbackRates this) ds (videoPlaybackRate player) = Some r
            \<and> Min (set (playbackRates this)) \<le> r \<and> r \<le> Max (set (playbackRates this))"
    using in_ladder_bounds by blast
  from stepPlaybackRates_in_ladder [OF assms] obtain this' player'
    where "stepPlaybackRates steps (this, player) = Some (this', player')"
      "playbackRates this' = playbackRates this"
      "videoPlaybackRate player' \<in> set (playbackRates this)" by blast
  then have b: "\<exists>this' player'. stepPlaybackRates steps (this, player) = Some (this', player')
            \<and> playbackRates this' = playbackRates this
            \<and> Min (set (playbackRates this)) \<le> videoPlaybackRate player'
            \<and> videoPlaybackRate player' \<le> Max (set (playbackRates this))"
    using in_ladder_bounds by blast
  have c: "playbackRates (ModPlaybackRate_new rates start) \<noteq> []"
    by (simp add: ModPlaybackRate_new_def defaultPlaybackRates_def)
  from a b c five_increases show ?thesis by blast
qed


lemma five_increase_steps:
  "map_option (videoPlaybackRate \<circ> snd)
     (stepPlaybackRates
        [((1000, 1001), 1), ((1200, 1201), 1), ((1400, 1401), 1), ((1600, 1601), 1),
         ((1800, 1801), 1)]
        (\<lparr>playbackRates = [1 / 4, 1 / 2, 1, 2], timerStart = 0\<rparr>,
         \<lparr>videoPlaybackRate = 1, adState = - 1, osdText = ''''\<rparr>)) = Some 2"
  by code_simp

theorem stepPlaybackRate_within_ladder_witness:
  "[1 / 4, 1 / 2, 1, 2 :: rat] \<noteq> [] \<and> (1 :: rat) \<in> set [1 / 4, 1 / 2, 1, 2]
   \<and> (\<exists>this' player'.
         stepPlaybackRates
           [((1000, 1001), 1), ((1200, 1201), 1), ((1400, 1401), 1), ((1600, 1601), 1),
            ((1800, 1801), 1)]
           (\<lparr>playbackRates = [1 / 4, 1 / 2, 1, 2], timerStart = 0\<rparr>,
            \<lparr>videoPlaybackRate = 1, adState = - 1, osdText = ''''\<rparr>) = Some (this', player')
         \<and> videoPlaybackRate player' = 2
         \<and> Min (set [1 / 4, 1 / 2, 1, 2]) \<le> videoPlaybackRate player'
         \<and> videoPlaybackRate player' \<le> Max (set [1 / 4, 1 / 2, 1, 2]))"
proof -
  let ?mpr = "\<lparr>playbackRates = [1 / 4, 1 / 2, 1, 2], timerStart = 0\<rparr>"
  let ?player = "\<lparr>videoPlaybackRate = 1, adState = - 1, osdText = ''''\<rparr>"
  let ?steps = "[((1000, 1001), 1), ((1200, 1201), 1), ((1400, 1401), 1), ((1600, 1601), 1),
         ((1800, 1801), 1)] :: ((int \<times> int) \<times> int) list"
  have h1: "playbackRates ?mpr \<noteq> []" by simp
  have h2: "videoPlaybackRate ?player \<in> set (playbackRates ?mpr)" by simp
  from stepPlaybackRate_within_ladder [OF h1 h2, of "[]" ?steps] obtain this' player'
    where r: "stepPlaybackRates ?steps (?mpr, ?player) = Some (this', player')"
      "Min (set (playbackRates ?mpr)) \<le> videoPlaybackRate player'"
      "videoPlaybackRate player' \<le> Max (set (playbackRates ?mpr))" by blast
  from r(1) five_increase_steps have "videoPlaybackRate player' = 2" by simp
  with r show ?thesis by simp
qed


section \<open>Properties of the quality setter\<close>

text \<open>
  C7: the setter has no statement that can throw. When the requested label is not among the
  available ones it applies the first available label (\<^verbatim>\<open>availableQualities[0]\<close>, which is
  \<^verbatim>\<open>undefined\<close> only for an empty list) as both ends of the quality range; a label that is
  available is applied as it is.
\<close>

theorem playbackQuality_fallback:
  "(quality \<notin> set (availableQualityLevels widget) \<longrightarrow>
      playbackQualityRange (set_playbackQuality quality widget) =
        (js_index (availableQualityLevels widget) 0, js_index (availableQualityLevels widget) 0)
      \<and> (\<forall>first rest. availableQualityLevels widget = first # rest \<longrightarrow>
            playbackQualityRange (set_playbackQuality quality widget) = (Some first, Some first)))
   \<and> (quality \<in> set (availableQualityLevels widget) \<longrightarrow>
        playbackQualityRange (set_playbackQuality quality widget) = (Some quality, Some quality))
   \<and> availableQualityLevels (set_playbackQuality quality widget) = availableQualityLevels widget"
  by (auto simp: set_playbackQuality_def Let_def js_index_def)

theorem playbackQuality_fallback_witness:
  "''highres'' \<notin> set [''hd1080'', ''hd720'', ''large'']
   \<and> playbackQualityRange
        (set_playbackQuality ''highres''
           \<lparr>availableQualityLevels = [''hd1080'', ''hd720'', ''large''],
            playbackQualityRange = (None, None)\<rparr>) = (Some ''hd1080'', Some ''hd1080'')
   \<and> ''hd720'' \<in> set [''hd1080'', ''hd720'', ''large'']
   \<and> playbackQualityRange
        (set_playbackQuality ''hd720''
           \<lparr>availableQualityLevels = [''hd1080'', ''hd720'', ''large''],
            playbackQualityRange = (None, None)\<rparr>) = (Some ''hd720'', Some ''hd720'')"
  using
    playbackQuality_fallback [of "''highres''"
      "\<lparr>availableQualityLevels = [''hd1080'', ''hd720'', ''large''],
        playbackQualityRange = (None, None)\<rparr>"]
    playbackQuality_fallback [of "''hd720''"
      "\<lparr>availableQualityLevels = [''hd1080'', ''hd720'', ''large''],
        playbackQualityRange = (None, None)\<rparr>"]
  by (simp add: js_index_def)


section \<open>Properties of retryOnFail\<close>

lemma upt_Suc_shift: "[0..<Suc n] = 0 # map Suc [0..<n]"
  by (simp add: upt_conv_Cons map_Suc_upt del: upt_Suc)

lemma retryOnFail_stop_now:
  assumes "fst (callback (env s)) \<or> maxTries \<le> 1"
  shows "retryOnFail callback interval maxTries s =
           \<lparr>now = now s, env = snd (callback (env s)),
            invoked = invoked s @ [now s], scheduled = scheduled s\<rparr>"
proof -
  obtain b w where cb: "callback (env s) = (b, w)" by (cases "callback (env s)")
  with assms have "b \<or> maxTries \<le> 1" by simp
  then have "retryOnFail callback interval maxTries s = s\<lparr>env := w, invoked := invoked s @ [now s]\<rparr>"
    by (subst retryOnFail.simps) (simp add: cb)
  then show ?thesis using cb by (cases s) simp
qed

lemma retryOnFail_again:
  assumes "\<not> fst (callback (env s))" and "1 < maxTries"
  shows "retryOnFail callback interval maxTries s =
           retryOnFail callback interval (maxTries - 1)
             \<lparr>now = now s + interval, env = snd (callback (env s)),
              invoked = invoked s @ [now s], scheduled = scheduled s @ [interval]\<rparr>"
proof -
  obtain b w where cb: "callback (env s) = (b, w)" by (cases "callback (env s)")
  with assms have "\<not> (b \<or> maxTries \<le> 1)" by simp
  then have "retryOnFail callback interval maxTries s =
      retryOnFail callback interval (maxTries - 1)
        (s\<lparr>env := w, invoked := invoked s @ [now s],
           scheduled := scheduled s @ [interval], now := now s + interval\<rparr>)"
    by (subst retryOnFail.simps) (simp add: cb)
  moreover have "s\<lparr>env := w, invoked := invoked s @ [now s],
           scheduled := scheduled s @ [interval], now := now s + interval\<rparr> =
      \<lparr>now = now s + interval, env = snd (callback (env s)),
       invoked = invoked s @ [now s], scheduled = scheduled s @ [interval]\<rparr>"
    using cb by (cases s) simp
  ultimately show ?thesis by simp
qed


lemma retryOnFail_stops_at:
  assumes "\<forall>j < k. \<not> fst (callback (envAfter callback j (env s))) \<and> int j + 1 < maxTries"
    and "fst (callback (envAfter callback k (env s))) \<or> maxTries \<le> int k + 1"
  shows "retryOnFail callback interval maxTries s =
           \<lparr>now = now s + k * interval,
            env = envAfter callback (Suc k) (env s),
            invoked = invoked s @ map (\<lambda>j. now s + j * interval) [0..<Suc k],
            scheduled = scheduled s @ replicate k interval\<rparr>"
  using assms
proof (induction k arbitrary: s maxTries)
  case 0
  then have "fst (callback (env s)) \<or> maxTries \<le> 1" by simp
  then show ?case by (simp add: retryOnFail_stop_now)
next
  case (Suc k)
  let ?s = "\<lparr>now = now s + interval, env = snd (callback (env s)),
             invoked = invoked s @ [now s], scheduled = scheduled s @ [interval]\<rparr>"
  have "0 < Suc k" by simp
  with Suc.prems(1) have "\<not> fst (callback (envAfter callback 0 (env s))) \<and> int 0 + 1 < maxTries"
    by blast
  then have first: "\<not> fst (callback (env s))" "1 < maxTries" by simp_all
  have cont: "\<forall>j < k. \<not> fst (callback (envAfter callback j (env ?s))) \<and> int j + 1 < maxTries - 1"
  proof (intro allI impI)
    fix j assume "j < k"
    then have "Suc j < Suc k" by simp
    with Suc.prems(1) have "\<not> fst (callback (envAfter callback (Suc j) (env s)))
        \<and> int (Suc j) + 1 < maxTries" by blast
    then show "\<not> fst (callback (envAfter callback j (env ?s))) \<and> int j + 1 < maxTries - 1"
      by simp
  qed
  have stop: "fst (callback (envAfter callback k (env ?s))) \<or> maxTries - 1 \<le> int k + 1"
    using Suc.prems(2) by simp
  have shift: "map (\<lambda>j. now s + j * interval) [0..<Suc (Suc k)] =
      now s # map (\<lambda>j. now s + interval + j * interval) [0..<Suc k]"
    unfolding upt_Suc_shift [of "Suc k"] by (simp add: o_def del: upt_Suc)
  have "retryOnFail callback interval maxTries s =
      retryOnFail callback interval (maxTries - 1) ?s"
    using first by (rule retryOnFail_again)
  also have "\<dots> = \<lparr>now = now ?s + k * interval,
       env = envAfter callback (Suc k) (env ?s),
       invoked = invoked ?s @ map (\<lambda>j. now ?s + j * interval) [0..<Suc k],
       scheduled = scheduled ?s @ replicate k interval\<rparr>"
    by (rule Suc.IH [OF cont stop])
  also have "\<dots> = \<lparr>now = now s + Suc k * interval,
       env = envAfter callback (Suc (Suc k)) (env s),
       invoked = invoked s @ map (\<lambda>j. now s + j * interval) [0..<Suc (Suc k)],
       scheduled = scheduled s @ replicate (Suc k) interval\<rparr>"
    unfolding shift by (simp add: replicate_append_same del: upt_Suc)
  finally show ?case .
qed


lemma retryOnFail_stop_exists:
  "\<exists>k. (\<forall>j < k. \<not> fst (callback (envAfter callback j w)) \<and> int j + 1 < maxTries)
       \<and> (fst (callback (envAfter callback k w)) \<or> maxTries \<le> int k + 1)"
proof -
  define stop where
    "stop = (\<lambda>k. fst (callback (envAfter callback k w)) \<or> maxTries \<le> int k + 1)"
  define k0 where "k0 = (LEAST k. stop k)"
  have "maxTries \<le> int (nat (maxTries - 1)) + 1" by linarith
  then have "stop (nat (maxTries - 1))" unfolding stop_def by (rule disjI2)
  then have l: "stop k0" unfolding k0_def by (rule LeastI)
  have n: "\<not> stop j" if "j < k0" for j
    using that unfolding k0_def by (rule not_less_Least)
  have "\<not> fst (callback (envAfter callback j w)) \<and> int j + 1 < maxTries" if "j < k0" for j
    using n [OF that] unfolding stop_def by (simp add: not_le)
  with l show ?thesis unfolding stop_def by blast
qed

text \<open>
  C8: the chain stops at the first invocation that reports success or finds the retry budget
  at 1 or below, and until then every invocation sets one timer of the configured delay for
  the next; such an invocation always exists, so the chain ends, and nothing is raised. The
  end state is given in full: the invocations are one interval apart, the callback has really
  run once per invocation, and no timer is set after the last one. So a callback that never
  succeeds is invoked exactly \<open>maxTries\<close> times when \<open>maxTries \<ge> 1\<close> (three times for a budget
  of 3), with \<open>maxTries - 1\<close> timers; a callback that succeeds at once is invoked once and sets
  no timer; and one that succeeds at a later invocation is not rescheduled after it.
\<close>

theorem retryOnFail_budget:
  "(\<exists>n. (\<forall>j < n. \<not> fst (callback (envAfter callback j (env s))) \<and> int j + 1 < maxTries)
        \<and> (fst (callback (envAfter callback n (env s))) \<or> maxTries \<le> int n + 1)
        \<and> retryOnFail callback interval maxTries s =
            \<lparr>now = now s + n * interval,
             env = envAfter callback (Suc n) (env s),
             invoked = invoked s @ map (\<lambda>j. now s + j * interval) [0..<Suc n],
             scheduled = scheduled s @ replicate n interval\<rparr>)
   \<and> ((\<forall>j < k. \<not> fst (callback (envAfter callback j (env s))) \<and> int j + 1 < maxTries)
        \<and> (fst (callback (envAfter callback k (env s))) \<or> maxTries \<le> int k + 1) \<longrightarrow>
        retryOnFail callback interval maxTries s =
            \<lparr>now = now s + k * interval,
             env = envAfter callback (Suc k) (env s),
             invoked = invoked s @ map (\<lambda>j. now s + j * interval) [0..<Suc k],
             scheduled = scheduled s @ replicate k interval\<rparr>)
   \<and> ((\<forall>w. \<not> fst (callback w)) \<and> 1 \<le> maxTries \<longrightarrow>
        retryOnFail callback interval maxTries s =
            \<lparr>now = now s + (nat maxTries - 1) * interval,
             env = envAfter callback (nat maxTries) (env s),
             invoked = invoked s @ map (\<lambda>j. now s + j * interval) [0..<nat maxTries],
             scheduled = scheduled s @ replicate (nat maxTries - 1) interval\<rparr>
        \<and> length (invoked (retryOnFail callback interval maxTries s)) =
            length (invoked s) + nat maxTries)
   \<and> (fst (callback (env s)) \<longrightarrow>
        retryOnFail callback interval maxTries s =
            \<lparr>now = now s, env = snd (callback (env s)),
             invoked = invoked s @ [now s], scheduled = scheduled s\<rparr>)"
proof -
  from retryOnFail_stop_exists [of callback "env s" maxTries] obtain n where
    n: "\<forall>j < n. \<not> fst (callback (envAfter callback j (env s))) \<and> int j + 1 < maxTries"
      "fst (callback (envAfter callback n (env s))) \<or> maxTries \<le> int n + 1" by blast
  note a = retryOnFail_stops_at [OF n, of interval]
  have c: "retryOnFail callback interval maxTries s =
            \<lparr>now = now s + (nat maxTries - 1) * interval,
             env = envAfter callback (nat maxTries) (env s),
             invoked = invoked s @ map (\<lambda>j. now s + j * interval) [0..<nat maxTries],
             scheduled = scheduled s @ replicate (nat maxTries - 1) interval\<rparr>
        \<and> length (invoked (retryOnFail callback interval maxTries s)) =
            length (invoked s) + nat maxTries"
    if never: "\<forall>w. \<not> fst (callback w)" and budget: "1 \<le> maxTries"
  proof -
    define m where "m = nat maxTries - 1"
    from budget have m: "Suc m = nat maxTries" "maxTries = int m + 1"
      by (simp_all add: m_def)
    have "\<forall>j < m. \<not> fst (callback (envAfter callback j (env s))) \<and> int j + 1 < maxTries"
      using never m(2) by simp
    moreover have "fst (callback (envAfter callback m (env s))) \<or> maxTries \<le> int m + 1"
      using m(2) by simp
    ultimately have "retryOnFail callback interval maxTries s =
           \<lparr>now = now s + m * interval,
            env = envAfter callback (Suc m) (env s),
            invoked = invoked s @ map (\<lambda>j. now s + j * interval) [0..<Suc m],
            scheduled = scheduled s @ replicate m interval\<rparr>"
      by (rule retryOnFail_stops_at)
    then have r: "retryOnFail callback interval maxTries s =
            \<lparr>now = now s + (nat maxTries - 1) * interval,
             env = envAfter callback (nat maxTries) (env s),
             invoked = invoked s @ map (\<lambda>j. now s + j * interval) [0..<nat maxTries],
             scheduled = scheduled s @ replicate (nat maxTries - 1) interval\<rparr>"
      unfolding m(1) by (simp only: m_def)
    have "length (invoked (retryOnFail callback interval maxTries s)) =
        length (invoked s) + nat maxTries"
      unfolding r by simp
    with r show ?thesis by (rule conjI)
  qed
  have d: "retryOnFail callback interval maxTries s =
            \<lparr>now = now s, env = snd (callback (env s)),
             invoked = invoked s @ [now s], scheduled = scheduled s\<rparr>"
    if "fst (callback (env s))"
    using that by (simp add: retryOnFail_stop_now)
  from n a c d retryOnFail_stops_at [of k callback s maxTries interval]
  show ?thesis by blast
qed

theorem retryOnFail_budget_witness:
  "retryOnFail (readyAt 1) 500 3 \<lparr>now = 0, env = 0, invoked = [], scheduled = []\<rparr> =
     \<lparr>now = 500, env = 2, invoked = [0, 500], scheduled = [500]\<rparr>
   \<and> (\<forall>w :: nat. \<not> fst (False, Suc w)) \<and> (1 :: int) \<le> 3
   \<and> retryOnFail (\<lambda>w. (False, Suc w)) 500 3
        \<lparr>now = 0, env = 0 :: nat, invoked = [], scheduled = []\<rparr> =
     \<lparr>now = 1000, env = 3, invoked = [0, 500, 1000], scheduled = [500, 500]\<rparr>
   \<and> fst (readyAt 0 0)
   \<and> retryOnFail (readyAt 0) 500 3 \<lparr>now = 0, env = 0, invoked = [], scheduled = []\<rparr> =
     \<lparr>now = 0, env = 1, invoked = [0], scheduled = []\<rparr>"
proof -
  let ?s = "\<lparr>now = 0, env = 0 :: nat, invoked = [], scheduled = []\<rparr>"
  have later: "(\<forall>j < Suc 0. \<not> fst (readyAt 1 (envAfter (readyAt 1) j (env ?s))) \<and> int j + 1 < 3)
      \<and> (fst (readyAt 1 (envAfter (readyAt 1) (Suc 0) (env ?s))) \<or> (3 :: int) \<le> int (Suc 0) + 1)"
    by (simp add: readyAt_def)
  from retryOnFail_budget [where callback = "readyAt 1" and k = "Suc 0" and maxTries = 3
      and interval = 500 and s = ?s] later
  have a: "retryOnFail (readyAt 1) 500 3 ?s =
      \<lparr>now = 500, env = 2, invoked = [0, 500], scheduled = [500]\<rparr>"
    by (simp add: readyAt_def)
  have never: "(\<forall>w :: nat. \<not> fst (False, Suc w)) \<and> (1 :: int) \<le> 3" by simp
  from retryOnFail_budget [where callback = "\<lambda>w :: nat. (False, Suc w)" and maxTries = 3
      and interval = 500 and s = ?s] never
  have b: "retryOnFail (\<lambda>w. (False, Suc w)) 500 3 ?s =
      \<lparr>now = 1000, env = 3, invoked = [0, 500, 1000], scheduled = [500, 500]\<rparr>"
    by (simp add: numeral_3_eq_3)
  have first: "fst (readyAt 0 (env ?s))" by (simp add: readyAt_def)
  from retryOnFail_budget [where callback = "readyAt 0" and maxTries = 3
      and interval = 500 and s = ?s] first
  have c: "retryOnFail (readyAt 0) 500 3 ?s =
      \<lparr>now = 0, env = 1, invoked = [0], scheduled = []\<rparr>"
    by (simp add: readyAt_def)
  from a b c never first show ?thesis by simp
qed


section \<open>Properties of the lifecycle\<close>

text \<open>The definitions to unfold when a run of the examples is evaluated.\<close>

lemmas example_defs =
  refreshHandler_def refreshPlayers_def applyTweaks_def applyEagerTweaks_def
  updatePlayers_def updatePlayers_body_def TweakedYouTubePlayer_new_def
  andThen_def Player_applyEagerTweaks_def Player_applyTweaks_def invoke_def
  flakyTweak_def faultyTweak_def plainTweak_def hastyTweak_def Tweak_def emptyApp_def

subsection \<open>Loops and sequences\<close>

lemma forEach_invariant:
  assumes "\<And>x s. x \<in> set xs \<Longrightarrow> P s \<Longrightarrow> P (snd (body x s))" and "P s"
  shows "P (snd (forEach body xs s))"
  using assms
proof (induction xs arbitrary: s)
  case Nil
  then show ?case by simp
next
  case (Cons x xs)
  have step: "P (snd (body x s))" using Cons.prems by simp
  show ?case
  proof (cases "body x s")
    case (Pair r s')
    with step have "P s'" by simp
    show ?thesis
    proof (cases r)
      case None
      with Pair Cons.IH [of s'] Cons.prems(1) \<open>P s'\<close> show ?thesis by simp
    next
      case (Some e)
      with Pair \<open>P s'\<close> show ?thesis by simp
    qed
  qed
qed

lemma andThen_invariant:
  assumes "\<And>s. P s \<Longrightarrow> P (snd (f s))" and "\<And>s. P s \<Longrightarrow> P (snd (g s))" and "P s"
  shows "P (snd (andThen f g s))"
proof (cases "f s")
  case (Pair r s')
  with assms(1) [OF assms(3)] have "P s'" by simp
  with Pair assms(2) [of s'] show ?thesis
    by (cases r) (simp_all add: andThen_def)
qed

lemma forEach_append:
  "forEach body (xs @ ys) s =
     (case forEach body xs s of (Some e, s') \<Rightarrow> (Some e, s') | (None, s') \<Rightarrow> forEach body ys s')"
  by (induction xs arbitrary: s) (auto split: prod.splits option.splits)

lemma andThen_None:
  "andThen f g s = (None, s') \<longleftrightarrow> (\<exists>s1. f s = (None, s1) \<and> g s1 = (None, s'))"
  by (auto simp: andThen_def split: prod.splits option.splits)

lemma invoke_players [simp]: "players (snd (invoke c f s)) = players s"
  by (simp add: invoke_def split: prod.splits)

lemma invoke_trace [simp]: "trace (snd (invoke c f s)) = trace s @ [c]"
  by (simp add: invoke_def split: prod.splits)

text \<open>A fan-out over the tweaks extends the history by a prefix of its calls: all of them
  when it returns, those up to the hook that threw otherwise.\<close>

lemma forEach_invoke:
  assumes "forEach (\<lambda>tweak. invoke (c tweak) (f tweak)) tweaks s = (r, s')"
  shows "players s' = players s
       \<and> (\<exists>k \<le> length tweaks. trace s' = trace s @ map c (take k tweaks)
            \<and> (r = None \<longrightarrow> k = length tweaks) \<and> (r \<noteq> None \<longrightarrow> 0 < k))"
  using assms
proof (induction tweaks arbitrary: s)
  case Nil
  then show ?case by simp
next
  case (Cons t ts)
  obtain r1 s1 where one: "invoke (c t) (f t) s = (r1, s1)" by (cases "invoke (c t) (f t) s")
  then have s1: "players s1 = players s" "trace s1 = trace s @ [c t]"
    using invoke_players [of "c t" "f t" s] invoke_trace [of "c t" "f t" s] by simp_all
  show ?case
  proof (cases r1)
    case None
    with one Cons.prems have "forEach (\<lambda>tweak. invoke (c tweak) (f tweak)) ts s1 = (r, s')"
      by simp
    from Cons.IH [OF this] obtain k where k: "players s' = players s1" "k \<le> length ts"
      "trace s' = trace s1 @ map c (take k ts)" "r = None \<longrightarrow> k = length ts" by blast
    then have "Suc k \<le> length (t # ts) \<and> trace s' = trace s @ map c (take (Suc k) (t # ts))
        \<and> (r = None \<longrightarrow> Suc k = length (t # ts)) \<and> (r \<noteq> None \<longrightarrow> 0 < Suc k)"
      using s1 by simp
    with k(1) s1(1) show ?thesis by metis
  next
    case (Some e)
    with one Cons.prems have "r = Some e" "s' = s1" by simp_all
    then have "Suc 0 \<le> length (t # ts) \<and> trace s' = trace s @ map c (take (Suc 0) (t # ts))
        \<and> (r = None \<longrightarrow> Suc 0 = length (t # ts)) \<and> (r \<noteq> None \<longrightarrow> 0 < Suc 0)"
      using s1 by simp
    with \<open>s' = s1\<close> s1(1) show ?thesis by metis
  qed
qed


subsection \<open>The fan-outs\<close>

lemma forEach_invoke_calls:
  assumes "forEach (\<lambda>tweak. invoke (tweakName tweak, h, x) (f tweak)) tweaks s = (r, s')"
  shows "players s' = players s
       \<and> (\<exists>k \<le> length tweaks. trace s' = trace s @ take k (calls h x tweaks)
            \<and> (r = None \<longrightarrow> k = length tweaks) \<and> (r \<noteq> None \<longrightarrow> 0 < k))"
  using forEach_invoke [of "\<lambda>tweak. (tweakName tweak, h, x)" f tweaks s r s', OF assms]
  by (simp add: calls_def take_map)

lemma applyEagerTweaks_calls:
  assumes "applyEagerTweaks tweaks s = (r, s')"
  shows "players s' = players s
       \<and> (\<exists>k \<le> length tweaks. trace s' = trace s @ take k (calls OnAppEagerInit TheApp tweaks)
            \<and> (r = None \<longrightarrow> k = length tweaks) \<and> (r \<noteq> None \<longrightarrow> 0 < k))"
  using assms unfolding applyEagerTweaks_def by (rule forEach_invoke_calls)

lemma applyTweaks_INIT_calls:
  assumes "applyTweaks INIT tweaks s = (r, s')"
  shows "players s' = players s
       \<and> (\<exists>k \<le> length tweaks. trace s' = trace s @ take k (calls OnAppInit TheApp tweaks)
            \<and> (r = None \<longrightarrow> k = length tweaks) \<and> (r \<noteq> None \<longrightarrow> 0 < k))"
  using assms unfolding applyTweaks_def EVENTS.case by (rule forEach_invoke_calls)

lemma applyTweaks_REFRESH_calls:
  assumes "applyTweaks REFRESH tweaks s = (r, s')"
  shows "players s' = players s
       \<and> (\<exists>k \<le> length tweaks. trace s' = trace s @ take k (calls OnAppRefresh TheApp tweaks)
            \<and> (r = None \<longrightarrow> k = length tweaks) \<and> (r \<noteq> None \<longrightarrow> 0 < k))"
  using assms unfolding applyTweaks_def EVENTS.case by (rule forEach_invoke_calls)

lemma Player_applyEagerTweaks_calls:
  assumes "Player_applyEagerTweaks tweaks el s = (r, s')"
  shows "players s' = players s
       \<and> (\<exists>k \<le> length tweaks.
            trace s' = trace s @ take k (calls OnPlayerEagerInit (ThePlayer el) tweaks)
            \<and> (r = None \<longrightarrow> k = length tweaks) \<and> (r \<noteq> None \<longrightarrow> 0 < k))"
  using assms unfolding Player_applyEagerTweaks_def by (rule forEach_invoke_calls)

lemma Player_applyTweaks_INIT_calls:
  assumes "Player_applyTweaks INIT tweaks el s = (r, s')"
  shows "players s' = players s
       \<and> (\<exists>k \<le> length tweaks.
            trace s' = trace s @ take k (calls OnPlayerInit (ThePlayer el) tweaks)
            \<and> (r = None \<longrightarrow> k = length tweaks) \<and> (r \<noteq> None \<longrightarrow> 0 < k))"
  using assms unfolding Player_applyTweaks_def EVENTS.case by (rule forEach_invoke_calls)

lemma Player_applyTweaks_REFRESH_calls:
  assumes "Player_applyTweaks REFRESH tweaks el s = (r, s')"
  shows "players s' = players s
       \<and> (\<exists>k \<le> length tweaks.
            trace s' = trace s @ take k (calls OnPlayerRefresh (ThePlayer el) tweaks)
            \<and> (r = None \<longrightarrow> k = length tweaks) \<and> (r \<noteq> None \<longrightarrow> 0 < k))"
  using assms unfolding Player_applyTweaks_def EVENTS.case by (rule forEach_invoke_calls)

lemma calls_hook: "c \<in> set (calls h x tweaks) \<Longrightarrow> fst (snd c) = h"
  by (auto simp: calls_def)

subsection \<open>Construction and discovery\<close>

lemma TweakedYouTubePlayer_new_effect:
  assumes "TweakedYouTubePlayer_new tweaks el s = (res, s')"
  shows "players s' = players s
       \<and> (\<exists>D. trace s' = trace s @ D \<and> (\<forall>c \<in> set D. isConstructionCall c))
       \<and> (\<forall>p. res = Inr p \<longrightarrow> element p = el)"
proof -
  obtain r1 s1 where e: "Player_applyEagerTweaks tweaks el s = (r1, s1)"
    by (cases "Player_applyEagerTweaks tweaks el s")
  from Player_applyEagerTweaks_calls [OF e] obtain k1 where
    s1: "players s1 = players s"
      "trace s1 = trace s @ take k1 (calls OnPlayerEagerInit (ThePlayer el) tweaks)" by blast
  have d1: "\<forall>c \<in> set (take k1 (calls OnPlayerEagerInit (ThePlayer el) tweaks)). isConstructionCall c"
    by (auto simp: isConstructionCall_def dest!: in_set_takeD calls_hook)
  show ?thesis
  proof (cases r1)
    case (Some ex)
    with e assms have "res = Inl ex" "s' = s1"
      by (simp_all add: TweakedYouTubePlayer_new_def andThen_def)
    with s1 d1 show ?thesis by auto
  next
    case None
    obtain r2 s2 where i: "Player_applyTweaks INIT tweaks el s1 = (r2, s2)"
      by (cases "Player_applyTweaks INIT tweaks el s1")
    from Player_applyTweaks_INIT_calls [OF i] obtain k2 where
      s2: "players s2 = players s1"
        "trace s2 = trace s1 @ take k2 (calls OnPlayerInit (ThePlayer el) tweaks)" by blast
    have d2: "\<forall>c \<in> set (take k2 (calls OnPlayerInit (ThePlayer el) tweaks)). isConstructionCall c"
      by (auto simp: isConstructionCall_def dest!: in_set_takeD calls_hook)
    from None e i assms have s': "s' = s2"
      and res: "\<forall>p. res = Inr p \<longrightarrow> element p = el"
      by (cases r2; auto simp: TweakedYouTubePlayer_new_def andThen_def)+
    have "trace s' = trace s @ (take k1 (calls OnPlayerEagerInit (ThePlayer el) tweaks)
        @ take k2 (calls OnPlayerInit (ThePlayer el) tweaks))"
      using s' s1 s2 by simp
    moreover have "\<forall>c \<in> set (take k1 (calls OnPlayerEagerInit (ThePlayer el) tweaks)
        @ take k2 (calls OnPlayerInit (ThePlayer el) tweaks)). isConstructionCall c"
      using d1 d2 by auto
    ultimately have "\<exists>D. trace s' = trace s @ D \<and> (\<forall>c \<in> set D. isConstructionCall c)"
      by blast
    with s' s1 s2 res show ?thesis by simp
  qed
qed

lemma find_element_None: "find (\<lambda>e. element e = el) ps = None \<longleftrightarrow> el \<notin> element ` set ps"
  by (auto simp: find_None_iff)

lemma discovered_refl: "discovered s s"
  by (simp add: discovered_def)

lemma discovered_trans: "discovered s s1 \<Longrightarrow> discovered s1 s2 \<Longrightarrow> discovered s s2"
  unfolding discovered_def
  by (elim conjE exE) (intro conjI, (force intro: prefix_order.trans)+)

lemma updatePlayers_body_discovered:
  "discovered s (snd (updatePlayers_body tweaks el s))"
proof (cases "find (\<lambda>e. element e = el) (players s) = None")
  case False
  then show ?thesis by (auto simp: updatePlayers_body_def discovered_refl)
next
  case True
  obtain res s1 where n: "TweakedYouTubePlayer_new tweaks el s = (res, s1)"
    by (cases "TweakedYouTubePlayer_new tweaks el s")
  from TweakedYouTubePlayer_new_effect [OF n] obtain D where
    s1: "players s1 = players s" "trace s1 = trace s @ D" "\<forall>c \<in> set D. isConstructionCall c"
      "\<forall>p. res = Inr p \<longrightarrow> element p = el" by blast
  show ?thesis
  proof (cases res)
    case (Inl ex)
    with True n s1 show ?thesis
      by (auto simp: updatePlayers_body_def discovered_def)
  next
    case (Inr p)
    with s1 have "element p = el" by simp
    moreover from True have "el \<notin> element ` set (players s)" by (simp add: find_element_None)
    ultimately show ?thesis
      using True n Inr s1 by (auto simp: updatePlayers_body_def discovered_def)
  qed
qed

lemma updatePlayers_discovered:
  "discovered s (snd (updatePlayers tweaks doc s))"
  unfolding updatePlayers_def
proof (rule forEach_invariant [where P = "discovered s"])
  show "discovered s s" by (rule discovered_refl)
next
  fix x s1 assume "discovered s s1"
  then show "discovered s (snd (updatePlayers_body tweaks x s1))"
    using updatePlayers_body_discovered discovered_trans by blast
qed

lemma updatePlayers_body_tracks:
  assumes "updatePlayers_body tweaks el s = (None, s')"
  shows "el \<in> element ` set (players s')"
proof (cases "find (\<lambda>e. element e = el) (players s) = None")
  case False
  with assms show ?thesis by (simp add: updatePlayers_body_def find_element_None)
next
  case True
  obtain res s1 where n: "TweakedYouTubePlayer_new tweaks el s = (res, s1)"
    by (cases "TweakedYouTubePlayer_new tweaks el s")
  from TweakedYouTubePlayer_new_effect [OF n]
  have el: "\<forall>p. res = Inr p \<longrightarrow> element p = el" by blast
  from True n assms el show ?thesis
    by (cases res) (auto simp: updatePlayers_body_def)
qed

lemma updatePlayers_tracks:
  assumes "updatePlayers tweaks doc s = (None, s')"
  shows "set doc \<subseteq> element ` set (players s')"
  using assms
proof (induction doc arbitrary: s)
  case Nil
  then show ?case by simp
next
  case (Cons el doc)
  from Cons.prems obtain s1 where one: "updatePlayers_body tweaks el s = (None, s1)"
    and rest: "updatePlayers tweaks doc s1 = (None, s')"
    by (auto simp: updatePlayers_def split: prod.splits option.splits)
  from updatePlayers_discovered [of s1 tweaks doc] rest
  have "set (players s1) \<subseteq> set (players s')"
    by (auto simp: discovered_def dest: set_mono_prefix)
  with updatePlayers_body_tracks [OF one] Cons.IH [OF rest] show ?case by auto
qed

lemma updatePlayers_nothing_new:
  assumes "set doc \<subseteq> element ` set (players s)"
  shows "updatePlayers tweaks doc s = (None, s)"
  using assms
proof (induction doc)
  case Nil
  then show ?case by (simp add: updatePlayers_def)
next
  case (Cons el doc)
  then have "find (\<lambda>e. element e = el) (players s) \<noteq> None"
    by (simp add: find_element_None)
  then have "updatePlayers_body tweaks el s = (None, s)"
    by (auto simp: updatePlayers_body_def)
  with Cons show ?case by (simp add: updatePlayers_def)
qed

lemma updatePlayers_times_discovered:
  "discovered s (updatePlayers_times n tweaks doc s)"
proof (induction n arbitrary: s)
  case 0
  show ?case by (simp add: discovered_refl)
next
  case (Suc n)
  from updatePlayers_discovered [of s tweaks doc] Suc [of "snd (updatePlayers tweaks doc s)"]
  show ?case by (auto intro: discovered_trans)
qed

lemma updatePlayers_times_fixed:
  assumes "set doc \<subseteq> element ` set (players s)"
  shows "updatePlayers_times n tweaks doc s = s"
  by (induction n) (simp_all add: updatePlayers_nothing_new [OF assms])

lemma TweakedYouTubeApp_new_distinct:
  "distinct (map element (players (snd (TweakedYouTubeApp_new tweaks doc w))))"
proof -
  let ?s0 = "\<lparr>players = [], world = w, trace = []\<rparr>"
  have "players (snd (andThen (applyEagerTweaks tweaks)
          (andThen (applyTweaks INIT tweaks) (updatePlayers tweaks doc)) ?s0)) = []
      \<or> distinct (map element (players (snd (andThen (applyEagerTweaks tweaks)
          (andThen (applyTweaks INIT tweaks) (updatePlayers tweaks doc)) ?s0))))"
  proof (rule andThen_invariant
      [where P = "\<lambda>s. players s = [] \<or> distinct (map element (players s))"])
    fix s :: "'a app" assume "players s = [] \<or> distinct (map element (players s))"
    then show "players (snd (applyEagerTweaks tweaks s)) = []
        \<or> distinct (map element (players (snd (applyEagerTweaks tweaks s))))"
      using applyEagerTweaks_calls [of tweaks s "fst (applyEagerTweaks tweaks s)"
          "snd (applyEagerTweaks tweaks s)"] by simp
  next
    fix s :: "'a app" assume a: "players s = [] \<or> distinct (map element (players s))"
    show "players (snd (andThen (applyTweaks INIT tweaks) (updatePlayers tweaks doc) s)) = []
        \<or> distinct (map element
             (players (snd (andThen (applyTweaks INIT tweaks) (updatePlayers tweaks doc) s))))"
    proof (rule andThen_invariant
        [where P = "\<lambda>s. players s = [] \<or> distinct (map element (players s))"])
      fix s :: "'a app" assume "players s = [] \<or> distinct (map element (players s))"
      then show "players (snd (applyTweaks INIT tweaks s)) = []
          \<or> distinct (map element (players (snd (applyTweaks INIT tweaks s))))"
        using applyTweaks_INIT_calls [of tweaks s "fst (applyTweaks INIT tweaks s)"
            "snd (applyTweaks INIT tweaks s)"] by simp
    next
      fix s :: "'a app" assume "players s = [] \<or> distinct (map element (players s))"
      then have "distinct (map element (players s))" by auto
      then show "players (snd (updatePlayers tweaks doc s)) = []
          \<or> distinct (map element (players (snd (updatePlayers tweaks doc s))))"
        using updatePlayers_discovered [of s tweaks doc] by (simp add: discovered_def)
    qed (rule a)
  qed simp
  then show ?thesis by (auto simp: TweakedYouTubeApp_new_def)
qed

text \<open>
  C1, as the code has it. The app starts with no element wrapped twice. However often
  \<^verbatim>\<open>updatePlayers\<close> is called, and whether or not a call throws, the list of tracked players
  only grows at its end, and no element gets a second wrapper if none had two before. A call
  that returns (no hook threw while a wrapper was constructed) leaves every element of the
  document tracked, and from then on any number of calls on the same document changes nothing
  at all: no wrapper is constructed and no hook runs.
\<close>

theorem updatePlayers_idempotent:
  "distinct (map element (players (snd (TweakedYouTubeApp_new tweaks document w))))
   \<and> prefix (players s) (players (updatePlayers_times n tweaks document s))
   \<and> (distinct (map element (players s)) \<longrightarrow>
        distinct (map element (players (updatePlayers_times n tweaks document s))))
   \<and> (fst (updatePlayers tweaks document s) = None \<longrightarrow>
        set document \<subseteq> element ` set (players (snd (updatePlayers tweaks document s)))
        \<and> (1 \<le> n \<longrightarrow>
             updatePlayers_times n tweaks document s = snd (updatePlayers tweaks document s)))"
proof -
  have a: "prefix (players s) (players (updatePlayers_times n tweaks document s))"
    and b: "distinct (map element (players s)) \<longrightarrow>
        distinct (map element (players (updatePlayers_times n tweaks document s)))"
    using updatePlayers_times_discovered [of s n tweaks document]
    by (simp_all add: discovered_def)
  have c: "set document \<subseteq> element ` set (players (snd (updatePlayers tweaks document s)))
        \<and> (1 \<le> n \<longrightarrow>
             updatePlayers_times n tweaks document s = snd (updatePlayers tweaks document s))"
    if "fst (updatePlayers tweaks document s) = None"
  proof -
    from that have u: "updatePlayers tweaks document s =
        (None, snd (updatePlayers tweaks document s))"
      by (cases "updatePlayers tweaks document s") simp
    note t = updatePlayers_tracks [OF u]
    have "updatePlayers_times n tweaks document s = snd (updatePlayers tweaks document s)"
      if "1 \<le> n"
    proof -
      from that obtain m where "n = Suc m" by (cases n) auto
      then show ?thesis by (simp add: updatePlayers_times_fixed [OF t])
    qed
    with t show ?thesis by simp
  qed
  from a b c TweakedYouTubeApp_new_distinct [of tweaks document w] show ?thesis by blast
qed

theorem updatePlayers_idempotent_witness:
  "distinct (map element (players emptyApp))
   \<and> fst (updatePlayers [plainTweak] [7, 9, 7] emptyApp) = None
   \<and> map element (players (updatePlayers_times 3 [plainTweak] [7, 9, 7] emptyApp)) = [7, 9]
   \<and> updatePlayers_times 3 [plainTweak] [7, 9, 7] emptyApp =
       snd (updatePlayers [plainTweak] [7, 9, 7] emptyApp)"
proof -
  have run: "updatePlayers [plainTweak] [7, 9, 7] emptyApp =
     (None,
      \<lparr>players = [\<lparr>element = 7, isUIEnabled = True, ignoreNextUIMutation = False\<rparr>,
                  \<lparr>element = 9, isUIEnabled = True, ignoreNextUIMutation = False\<rparr>],
       world = 0,
       trace =
         [(''Plain'', OnPlayerEagerInit, ThePlayer 7), (''Plain'', OnPlayerInit, ThePlayer 7),
          (''Plain'', OnPlayerEagerInit, ThePlayer 9), (''Plain'', OnPlayerInit, ThePlayer 9)]\<rparr>)"
    by (simp add: example_defs)
  have d: "distinct (map element (players emptyApp))" by (simp add: emptyApp_def)
  from updatePlayers_idempotent [where s = emptyApp and n = 3 and tweaks = "[plainTweak]"
      and document = "[7, 9, 7]" and w = 0] run
  have "updatePlayers_times 3 [plainTweak] [7, 9, 7] emptyApp =
       snd (updatePlayers [plainTweak] [7, 9, 7] emptyApp)" by simp
  with run d show ?thesis by simp
qed

text \<open>
  C1 as the specification words it fails when a hook throws while a wrapper is constructed:
  the call ends before the wrapper is pushed, and the next call constructs a wrapper for the
  same element again. With a tweak whose init hook throws the first time only, one call leaves
  no player tracked and two calls leave one.
\<close>

theorem updatePlayers_retry_after_throw:
  "players (updatePlayers_times 2 [flakyTweak] [7] emptyApp)
     \<noteq> players (updatePlayers_times 1 [flakyTweak] [7] emptyApp)"
  by (simp add: example_defs numeral_2_eq_2)


subsection \<open>The refresh pass\<close>

lemma take_prefix: "prefix (take k xs) xs"
  by (simp add: take_is_prefix)

lemma refreshPlayers_calls:
  assumes "refreshPlayers tweaks ps s = (r, s')"
  shows "players s' = players s
       \<and> (\<exists>P. trace s' = trace s @ P \<and> prefix P (refreshCalls tweaks ps)
            \<and> (r = None \<longrightarrow> P = refreshCalls tweaks ps))"
  using assms
proof (induction ps arbitrary: s)
  case Nil
  then show ?case by (simp add: refreshPlayers_def refreshCalls_def)
next
  case (Cons p ps)
  let ?own = "calls OnPlayerRefresh (ThePlayer (element p)) tweaks"
  obtain r1 s1 where one: "Player_applyTweaks REFRESH tweaks (element p) s = (r1, s1)"
    by (cases "Player_applyTweaks REFRESH tweaks (element p) s")
  from Player_applyTweaks_REFRESH_calls [OF one] obtain k where
    s1: "players s1 = players s" "trace s1 = trace s @ take k ?own"
      "r1 = None \<longrightarrow> k = length tweaks" by blast
  have split: "refreshCalls tweaks (p # ps) = ?own @ refreshCalls tweaks ps"
    by (simp add: refreshCalls_def)
  show ?case
  proof (cases r1)
    case (Some e)
    with one Cons.prems have "r = Some e" "s' = s1" by (simp_all add: refreshPlayers_def)
    moreover have "prefix (take k ?own) (?own @ refreshCalls tweaks ps)"
      using take_prefix [of k ?own] by (rule prefix_order.trans) simp
    ultimately show ?thesis using s1 split by auto
  next
    case None
    with one Cons.prems have rest: "refreshPlayers tweaks ps s1 = (r, s')"
      by (simp add: refreshPlayers_def)
    from Cons.IH [OF rest] obtain P where
      P: "players s' = players s1" "trace s' = trace s1 @ P"
        "prefix P (refreshCalls tweaks ps)" "r = None \<longrightarrow> P = refreshCalls tweaks ps" by blast
    from None s1 have own: "take k ?own = ?own" by (simp add: calls_def)
    have "trace s' = trace s @ (?own @ P)" using P(2) s1(2) own by simp
    moreover have "prefix (?own @ P) (refreshCalls tweaks (p # ps))"
      using P(3) split by simp
    moreover have "r = None \<longrightarrow> ?own @ P = refreshCalls tweaks (p # ps)"
      using P(4) split by simp
    ultimately have "\<exists>Q. trace s' = trace s @ Q \<and> prefix Q (refreshCalls tweaks (p # ps))
            \<and> (r = None \<longrightarrow> Q = refreshCalls tweaks (p # ps))"
      by (intro exI [of _ "?own @ P"]) simp
    with P(1) s1(1) show ?thesis by simp
  qed
qed

lemma updatePlayers_effect:
  assumes "updatePlayers tweaks doc s = (r, s1)"
  shows "prefix (players s) (players s1)
       \<and> (\<exists>D. trace s1 = trace s @ D \<and> (\<forall>c \<in> set D. isConstructionCall c))"
  using updatePlayers_discovered [of s tweaks doc] assms by (simp add: discovered_def)

text \<open>
  C2, as the code has it. The history of one refresh pass is the invocations of discovery (the
  eager and init hooks of the players it constructs), then app-level refresh invocations, then
  player-level refresh invocations, in this order and tweak by tweak, whether or not a hook
  throws: a refresh hook runs only after discovery has returned, and a player-level one only
  after every tweak's \<^verbatim>\<open>onAppRefresh\<close>. When the pass returns (no hook threw), every element
  of the document is tracked and \<^verbatim>\<open>onPlayerRefresh\<close> has run for every tweak on every tracked
  player, those discovered in this pass included.
\<close>

theorem refreshHandler_order:
  assumes "refreshHandler tweaks document s = (r, s')"
  shows "\<exists>s1 D A P.
           snd (updatePlayers tweaks document s) = s1
         \<and> trace s1 = trace s @ D \<and> (\<forall>c \<in> set D. isConstructionCall c)
         \<and> players s' = players s1
         \<and> trace s' = trace s @ D @ A @ P
         \<and> prefix A (calls OnAppRefresh TheApp tweaks)
         \<and> prefix P (refreshCalls tweaks (players s'))
         \<and> (A @ P \<noteq> [] \<longrightarrow> fst (updatePlayers tweaks document s) = None)
         \<and> (P \<noteq> [] \<longrightarrow> A = calls OnAppRefresh TheApp tweaks)
         \<and> (r = None \<longrightarrow>
               set document \<subseteq> element ` set (players s')
               \<and> A = calls OnAppRefresh TheApp tweaks
               \<and> P = refreshCalls tweaks (players s'))"
proof -
  obtain r1 s1 where u: "updatePlayers tweaks document s = (r1, s1)"
    by (cases "updatePlayers tweaks document s")
  from updatePlayers_effect [OF u] obtain D where
    D: "trace s1 = trace s @ D" "\<forall>c \<in> set D. isConstructionCall c" by blast
  show ?thesis
  proof (cases r1)
    case (Some e)
    with u assms have "r = Some e" "s' = s1"
      by (simp_all add: refreshHandler_def andThen_def)
    with u D Some show ?thesis
      by (intro exI [of _ s1] exI [of _ D] exI [of _ "[]"]) simp
  next
    case None
    note tracked = updatePlayers_tracks [OF u [unfolded None]]
    obtain r2 s2 where a: "applyTweaks REFRESH tweaks s1 = (r2, s2)"
      by (cases "applyTweaks REFRESH tweaks s1")
    from applyTweaks_REFRESH_calls [OF a] obtain k where
      s2: "players s2 = players s1"
        "trace s2 = trace s1 @ take k (calls OnAppRefresh TheApp tweaks)"
        "r2 = None \<longrightarrow> k = length tweaks" by blast
    let ?A = "take k (calls OnAppRefresh TheApp tweaks)"
    show ?thesis
    proof (cases r2)
      case (Some e)
      with None u a assms have "r = Some e" "s' = s2"
        by (simp_all add: refreshHandler_def andThen_def)
      with u D None s2 show ?thesis
        by (intro exI [of _ s1] exI [of _ D] exI [of _ ?A] exI [of _ "[]"])
           (simp add: take_prefix)
    next
      case r2: None
      with None u a assms have p: "refreshPlayers tweaks (players s2) s2 = (r, s')"
        by (simp add: refreshHandler_def andThen_def)
      from refreshPlayers_calls [OF p] obtain P where
        P: "players s' = players s2" "trace s' = trace s2 @ P"
          "prefix P (refreshCalls tweaks (players s2))"
          "r = None \<longrightarrow> P = refreshCalls tweaks (players s2)" by blast
      from r2 s2 have A: "?A = calls OnAppRefresh TheApp tweaks" by (simp add: calls_def)
      from u D None s2 P A tracked show ?thesis
        by (intro exI [of _ s1] exI [of _ D] exI [of _ ?A] exI [of _ P]) simp
    qed
  qed
qed

lemma refresh_example:
  "refreshHandler [plainTweak, flakyTweak] [7] (emptyApp\<lparr>world := 5\<rparr>) =
     (None,
      \<lparr>players = [\<lparr>element = 7, isUIEnabled = True, ignoreNextUIMutation = False\<rparr>],
       world = 6,
       trace =
         [(''Plain'', OnPlayerEagerInit, ThePlayer 7), (''Flaky'', OnPlayerEagerInit, ThePlayer 7),
          (''Plain'', OnPlayerInit, ThePlayer 7), (''Flaky'', OnPlayerInit, ThePlayer 7),
          (''Plain'', OnAppRefresh, TheApp), (''Flaky'', OnAppRefresh, TheApp),
          (''Plain'', OnPlayerRefresh, ThePlayer 7), (''Flaky'', OnPlayerRefresh, ThePlayer 7)]\<rparr>)"
  by (simp add: example_defs)

theorem refreshHandler_order_witness:
  "fst (refreshHandler [plainTweak, flakyTweak] [7] (emptyApp\<lparr>world := 5\<rparr>)) = None
   \<and> (\<exists>D A P.
         trace (snd (refreshHandler [plainTweak, flakyTweak] [7] (emptyApp\<lparr>world := 5\<rparr>))) =
           D @ A @ P
         \<and> A = calls OnAppRefresh TheApp [plainTweak, flakyTweak]
         \<and> P = [(''Plain'', OnPlayerRefresh, ThePlayer 7), (''Flaky'', OnPlayerRefresh, ThePlayer 7)])"
proof -
  let ?s = "emptyApp\<lparr>world := 5\<rparr>"
  let ?s' = "snd (refreshHandler [plainTweak, flakyTweak] [7] ?s)"
  have run: "refreshHandler [plainTweak, flakyTweak] [7] ?s = (None, ?s')"
    by (simp add: refresh_example)
  have ps: "players ?s' = [\<lparr>element = 7, isUIEnabled = True, ignoreNextUIMutation = False\<rparr>]"
    by (simp add: refresh_example)
  from refreshHandler_order [OF run] obtain D A P where
    "trace ?s' = trace ?s @ D @ A @ P" "A = calls OnAppRefresh TheApp [plainTweak, flakyTweak]"
    "P = refreshCalls [plainTweak, flakyTweak] (players ?s')" by blast
  then have "trace ?s' = D @ A @ P \<and> A = calls OnAppRefresh TheApp [plainTweak, flakyTweak]
      \<and> P = [(''Plain'', OnPlayerRefresh, ThePlayer 7), (''Flaky'', OnPlayerRefresh, ThePlayer 7)]"
    unfolding ps
    by (simp add: emptyApp_def refreshCalls_def calls_def plainTweak_def flakyTweak_def Tweak_def)
  then have "\<exists>D A P. trace ?s' = D @ A @ P
      \<and> A = calls OnAppRefresh TheApp [plainTweak, flakyTweak]
      \<and> P = [(''Plain'', OnPlayerRefresh, ThePlayer 7), (''Flaky'', OnPlayerRefresh, ThePlayer 7)]"
    by blast
  moreover have "fst (refreshHandler [plainTweak, flakyTweak] [7] ?s) = None"
    by (simp add: refresh_example)
  ultimately show ?thesis by (rule conjI [rotated])
qed

text \<open>
  C2 as the specification words it fails when a hook throws: with a tweak whose
  \<^verbatim>\<open>onAppRefresh\<close> throws, the pass tracks the player of the document and then ends without
  a single \<^verbatim>\<open>onPlayerRefresh\<close>.
\<close>

theorem refreshHandler_aborted_by_throw:
  "element ` set (players (snd (refreshHandler [faultyTweak, plainTweak] [7] emptyApp))) = {7}
   \<and> (''Plain'', OnPlayerRefresh, ThePlayer 7)
        \<notin> set (trace (snd (refreshHandler [faultyTweak, plainTweak] [7] emptyApp)))
   \<and> (''Faulty'', OnPlayerRefresh, ThePlayer 7)
        \<notin> set (trace (snd (refreshHandler [faultyTweak, plainTweak] [7] emptyApp)))"
  by (simp add: example_defs)


subsection \<open>A hook that throws\<close>

lemma forEach_stops:
  assumes "forEach body xs s = (None, s1)" and "forEach body [x] s1 = (Some e, s2)"
  shows "forEach body (xs @ x # ys) s = (Some e, s2)"
proof -
  from assms(2) have "body x s1 = (Some e, s2)"
    by (cases "body x s1") (auto split: option.splits)
  with assms(1) show ?thesis by (simp add: forEach_append)
qed

lemma calls_append: "calls h x (ts @ us) = calls h x ts @ calls h x us"
  by (simp add: calls_def)

lemma stopped_calls:
  assumes "k \<le> length [t]" and "0 < k"
  shows "take k (calls h x [t]) = calls h x [t]"
  using assms by (cases k) (simp_all add: calls_def)

lemma applyEagerTweaks_stops:
  assumes "applyEagerTweaks before s = (None, s1)"
    and "applyEagerTweaks [tweak] s1 = (Some e, s2)"
  shows "applyEagerTweaks (before @ tweak # after) s = (Some e, s2)
       \<and> trace s2 = trace s @ calls OnAppEagerInit TheApp (before @ [tweak])"
proof -
  from applyEagerTweaks_calls [OF assms(1)]
  have "trace s1 = trace s @ calls OnAppEagerInit TheApp before" by (auto simp: calls_def)
  moreover from applyEagerTweaks_calls [OF assms(2)]
  have "trace s2 = trace s1 @ calls OnAppEagerInit TheApp [tweak]"
    by (auto simp: stopped_calls)
  ultimately show ?thesis
    using forEach_stops [OF assms [unfolded applyEagerTweaks_def]]
    by (simp add: applyEagerTweaks_def calls_append)
qed

lemma applyTweaks_calls:
  assumes "applyTweaks event tweaks s = (r, s')"
  shows "players s' = players s
       \<and> (\<exists>k \<le> length tweaks. trace s' = trace s @ take k (calls (appHook event) TheApp tweaks)
            \<and> (r = None \<longrightarrow> k = length tweaks) \<and> (r \<noteq> None \<longrightarrow> 0 < k))"
  using assms applyTweaks_INIT_calls [of tweaks s r s'] applyTweaks_REFRESH_calls [of tweaks s r s']
  by (cases event) (simp_all add: appHook_def)

lemma Player_applyTweaks_calls:
  assumes "Player_applyTweaks event tweaks el s = (r, s')"
  shows "players s' = players s
       \<and> (\<exists>k \<le> length tweaks.
            trace s' = trace s @ take k (calls (playerHook event) (ThePlayer el) tweaks)
            \<and> (r = None \<longrightarrow> k = length tweaks) \<and> (r \<noteq> None \<longrightarrow> 0 < k))"
  using assms Player_applyTweaks_INIT_calls [of tweaks el s r s']
    Player_applyTweaks_REFRESH_calls [of tweaks el s r s']
  by (cases event) (simp_all add: playerHook_def)

lemma applyTweaks_stops:
  assumes "applyTweaks event before s = (None, s1)"
    and "applyTweaks event [tweak] s1 = (Some e, s2)"
  shows "applyTweaks event (before @ tweak # after) s = (Some e, s2)
       \<and> trace s2 = trace s @ calls (appHook event) TheApp (before @ [tweak])"
proof -
  from applyTweaks_calls [OF assms(1)]
  have "trace s1 = trace s @ calls (appHook event) TheApp before" by (auto simp: calls_def)
  moreover from applyTweaks_calls [OF assms(2)]
  have "trace s2 = trace s1 @ calls (appHook event) TheApp [tweak]"
    by (auto simp: stopped_calls)
  ultimately show ?thesis
    using forEach_stops [OF assms [unfolded applyTweaks_def]]
    by (simp add: applyTweaks_def calls_append)
qed

lemma Player_applyTweaks_stops:
  assumes "Player_applyTweaks event before el s = (None, s1)"
    and "Player_applyTweaks event [tweak] el s1 = (Some e, s2)"
  shows "Player_applyTweaks event (before @ tweak # after) el s = (Some e, s2)
       \<and> trace s2 = trace s @ calls (playerHook event) (ThePlayer el) (before @ [tweak])"
proof -
  from Player_applyTweaks_calls [OF assms(1)]
  have "trace s1 = trace s @ calls (playerHook event) (ThePlayer el) before"
    by (auto simp: calls_def)
  moreover from Player_applyTweaks_calls [OF assms(2)]
  have "trace s2 = trace s1 @ calls (playerHook event) (ThePlayer el) [tweak]"
    by (auto simp: stopped_calls)
  ultimately show ?thesis
    using forEach_stops [OF assms [unfolded Player_applyTweaks_def]]
    by (simp add: Player_applyTweaks_def calls_append)
qed

lemma refreshPlayers_stops:
  assumes "refreshPlayers tweaks ps s = (None, s1)"
    and "Player_applyTweaks REFRESH tweaks (element p) s1 = (Some e, s2)"
  shows "refreshPlayers tweaks (ps @ p # qs) s = (Some e, s2)
       \<and> (\<exists>P. trace s2 = trace s @ refreshCalls tweaks ps @ P
              \<and> prefix P (calls OnPlayerRefresh (ThePlayer (element p)) tweaks))"
proof -
  from refreshPlayers_calls [OF assms(1)]
  have "trace s1 = trace s @ refreshCalls tweaks ps" by auto
  moreover from Player_applyTweaks_REFRESH_calls [OF assms(2)] obtain k
    where "trace s2 = trace s1 @ take k (calls OnPlayerRefresh (ThePlayer (element p)) tweaks)"
    by blast
  ultimately have "\<exists>P. trace s2 = trace s @ refreshCalls tweaks ps @ P
              \<and> prefix P (calls OnPlayerRefresh (ThePlayer (element p)) tweaks)"
    using take_prefix by (intro exI [of _ "take k (calls OnPlayerRefresh (ThePlayer (element p)) tweaks)"]) simp
  moreover have "refreshPlayers tweaks (ps @ p # qs) s = (Some e, s2)"
    using assms by (simp add: refreshPlayers_def forEach_append)
  ultimately show ?thesis by simp
qed

text \<open>
  C3, as the code has it: no fan-out catches. In \<^verbatim>\<open>applyEagerTweaks\<close>, in \<^verbatim>\<open>applyTweaks\<close> of
  the app and in \<^verbatim>\<open>applyTweaks\<close> of a player, when the hooks of the tweaks before some tweak
  return and the hook of that tweak throws, the exception leaves the fan-out: its history ends
  with that hook and no hook of a later tweak is invoked. In the loop of the refresh handler
  over the players, an exception in the fan-out of one player leaves the loop, and no later
  player is refreshed. A fan-out that returns has invoked the hook of every tweak, in the
  order of the list.
\<close>

theorem fanout_stops_at_throw:
  "(applyEagerTweaks before s = (None, s1) \<and> applyEagerTweaks [tweak] s1 = (Some e, s2) \<longrightarrow>
      applyEagerTweaks (before @ tweak # after) s = (Some e, s2)
      \<and> trace s2 = trace s @ calls OnAppEagerInit TheApp (before @ [tweak]))
   \<and> (applyTweaks event before s = (None, s1) \<and> applyTweaks event [tweak] s1 = (Some e, s2) \<longrightarrow>
      applyTweaks event (before @ tweak # after) s = (Some e, s2)
      \<and> trace s2 = trace s @ calls (appHook event) TheApp (before @ [tweak]))
   \<and> (Player_applyTweaks event before el s = (None, s1)
        \<and> Player_applyTweaks event [tweak] el s1 = (Some e, s2) \<longrightarrow>
      Player_applyTweaks event (before @ tweak # after) el s = (Some e, s2)
      \<and> trace s2 = trace s @ calls (playerHook event) (ThePlayer el) (before @ [tweak]))
   \<and> (refreshPlayers tweaks ps s = (None, s1)
        \<and> Player_applyTweaks REFRESH tweaks (element p) s1 = (Some e, s2) \<longrightarrow>
      refreshPlayers tweaks (ps @ p # qs) s = (Some e, s2)
      \<and> (\<exists>P. trace s2 = trace s @ refreshCalls tweaks ps @ P
             \<and> prefix P (calls OnPlayerRefresh (ThePlayer (element p)) tweaks)))
   \<and> (applyEagerTweaks tweaks s = (None, s') \<longrightarrow>
        trace s' = trace s @ calls OnAppEagerInit TheApp tweaks)
   \<and> (applyTweaks event tweaks s = (None, s') \<longrightarrow>
        trace s' = trace s @ calls (appHook event) TheApp tweaks)
   \<and> (Player_applyTweaks event tweaks el s = (None, s') \<longrightarrow>
        trace s' = trace s @ calls (playerHook event) (ThePlayer el) tweaks)"
proof -
  have a: "applyEagerTweaks tweaks s = (None, s') \<longrightarrow>
        trace s' = trace s @ calls OnAppEagerInit TheApp tweaks"
    using applyEagerTweaks_calls [of tweaks s None s'] by (auto simp: calls_def)
  have b: "applyTweaks event tweaks s = (None, s') \<longrightarrow>
        trace s' = trace s @ calls (appHook event) TheApp tweaks"
    using applyTweaks_calls [of event tweaks s None s'] by (auto simp: calls_def)
  have c: "Player_applyTweaks event tweaks el s = (None, s') \<longrightarrow>
        trace s' = trace s @ calls (playerHook event) (ThePlayer el) tweaks"
    using Player_applyTweaks_calls [of event tweaks el s None s'] by (auto simp: calls_def)
  from a b c applyEagerTweaks_stops [of before s s1 tweak e s2 after]
    applyTweaks_stops [of event before s s1 tweak e s2 after]
    Player_applyTweaks_stops [of event before el s s1 tweak e s2 after]
    refreshPlayers_stops [of tweaks ps s s1 p e s2 qs]
  show ?thesis by blast
qed

theorem fanout_stops_at_throw_witness:
  "applyEagerTweaks [plainTweak, hastyTweak, plainTweak] emptyApp =
     (Some (Error ''too early''),
      \<lparr>players = [], world = 1,
       trace = [(''Plain'', OnAppEagerInit, TheApp), (''Hasty'', OnAppEagerInit, TheApp)]\<rparr>)
   \<and> applyTweaks REFRESH [plainTweak, faultyTweak, plainTweak] emptyApp =
     (Some (Error ''refresh failed''),
      \<lparr>players = [], world = 1,
       trace = [(''Plain'', OnAppRefresh, TheApp), (''Faulty'', OnAppRefresh, TheApp)]\<rparr>)
   \<and> Player_applyTweaks REFRESH [plainTweak, faultyTweak, plainTweak] 7 emptyApp =
     (Some (Error ''refresh failed''),
      \<lparr>players = [], world = 1,
       trace = [(''Plain'', OnPlayerRefresh, ThePlayer 7),
                (''Faulty'', OnPlayerRefresh, ThePlayer 7)]\<rparr>)
   \<and> fst (refreshPlayers [faultyTweak]
        [\<lparr>element = 7, isUIEnabled = True, ignoreNextUIMutation = False\<rparr>,
         \<lparr>element = 9, isUIEnabled = True, ignoreNextUIMutation = False\<rparr>] emptyApp) =
       Some (Error ''refresh failed'')
   \<and> trace (snd (applyTweaks INIT [plainTweak, faultyTweak] emptyApp)) =
       [(''Plain'', OnAppInit, TheApp), (''Faulty'', OnAppInit, TheApp)]"
proof -
  let ?p7 = "\<lparr>element = 7, isUIEnabled = True, ignoreNextUIMutation = False\<rparr>"
  let ?p9 = "\<lparr>element = 9, isUIEnabled = True, ignoreNextUIMutation = False\<rparr>"
  let ?e = "Error ''refresh failed''"
  let ?s1 = "emptyApp\<lparr>trace := [(''Plain'', OnAppEagerInit, TheApp)]\<rparr>"
  let ?s2 = "\<lparr>players = [], world = 1,
       trace = [(''Plain'', OnAppEagerInit, TheApp), (''Hasty'', OnAppEagerInit, TheApp)]\<rparr>"
  have "applyEagerTweaks [plainTweak] emptyApp = (None, ?s1)"
    and "applyEagerTweaks [hastyTweak] ?s1 = (Some (Error ''too early''), ?s2)"
    by (simp_all add: example_defs)
  with fanout_stops_at_throw [where before = "[plainTweak]" and s = emptyApp and ?s1.0 = ?s1
      and tweak = hastyTweak and e = "Error ''too early''" and ?s2.0 = ?s2
      and after = "[plainTweak]"]
  have a: "applyEagerTweaks [plainTweak, hastyTweak, plainTweak] emptyApp =
      (Some (Error ''too early''), ?s2)" by simp
  let ?t1 = "emptyApp\<lparr>trace := [(''Plain'', OnAppRefresh, TheApp)]\<rparr>"
  let ?t2 = "\<lparr>players = [], world = 1,
       trace = [(''Plain'', OnAppRefresh, TheApp), (''Faulty'', OnAppRefresh, TheApp)]\<rparr>"
  have "applyTweaks REFRESH [plainTweak] emptyApp = (None, ?t1)"
    and "applyTweaks REFRESH [faultyTweak] ?t1 = (Some ?e, ?t2)"
    by (simp_all add: example_defs)
  with fanout_stops_at_throw [where before = "[plainTweak]" and s = emptyApp and ?s1.0 = ?t1
      and tweak = faultyTweak and e = ?e and ?s2.0 = ?t2 and event = REFRESH
      and after = "[plainTweak]"]
  have b: "applyTweaks REFRESH [plainTweak, faultyTweak, plainTweak] emptyApp = (Some ?e, ?t2)"
    by simp
  let ?u1 = "emptyApp\<lparr>trace := [(''Plain'', OnPlayerRefresh, ThePlayer 7)]\<rparr>"
  let ?u2 = "\<lparr>players = [], world = 1,
       trace = [(''Plain'', OnPlayerRefresh, ThePlayer 7),
                (''Faulty'', OnPlayerRefresh, ThePlayer 7)]\<rparr>"
  have "Player_applyTweaks REFRESH [plainTweak] 7 emptyApp = (None, ?u1)"
    and "Player_applyTweaks REFRESH [faultyTweak] 7 ?u1 = (Some ?e, ?u2)"
    by (simp_all add: example_defs)
  with fanout_stops_at_throw [where before = "[plainTweak]" and s = emptyApp and ?s1.0 = ?u1
      and tweak = faultyTweak and e = ?e and ?s2.0 = ?u2 and event = REFRESH and el = 7
      and after = "[plainTweak]"]
  have c: "Player_applyTweaks REFRESH [plainTweak, faultyTweak, plainTweak] 7 emptyApp =
      (Some ?e, ?u2)" by simp
  let ?v2 = "\<lparr>players = [], world = 1, trace = [(''Faulty'', OnPlayerRefresh, ThePlayer 7)]\<rparr>"
  have "refreshPlayers [faultyTweak] [] emptyApp = (None, emptyApp)"
    and "Player_applyTweaks REFRESH [faultyTweak] (element ?p7) emptyApp = (Some ?e, ?v2)"
    by (simp_all add: example_defs)
  with fanout_stops_at_throw [where tweaks = "[faultyTweak]" and ps = "[]" and s = emptyApp
      and ?s1.0 = emptyApp and p = ?p7 and e = ?e and ?s2.0 = ?v2 and qs = "[?p9]"]
  have d: "fst (refreshPlayers [faultyTweak] [?p7, ?p9] emptyApp) = Some ?e" by simp
  let ?w = "\<lparr>players = [], world = 0,
       trace = [(''Plain'', OnAppInit, TheApp), (''Faulty'', OnAppInit, TheApp)]\<rparr>"
  have "applyTweaks INIT [plainTweak, faultyTweak] emptyApp = (None, ?w)"
    by (simp add: example_defs)
  with fanout_stops_at_throw [where tweaks = "[plainTweak, faultyTweak]" and s = emptyApp
      and s' = ?w and event = INIT]
  have f: "trace (snd (applyTweaks INIT [plainTweak, faultyTweak] emptyApp)) =
       [(''Plain'', OnAppInit, TheApp), (''Faulty'', OnAppInit, TheApp)]"
    by simp
  from a b c d f show ?thesis by simp
qed

text \<open>
  C3 as the specification words it fails: after a hook that throws, the hooks of the tweaks
  behind it are not invoked, and neither is the fan-out of the players behind it.
\<close>

theorem fanout_abandons_later_tweaks:
  "(''Plain'', OnAppRefresh, TheApp)
     \<notin> set (trace (snd (applyTweaks REFRESH [faultyTweak, plainTweak] emptyApp)))
   \<and> (''Plain'', OnAppEagerInit, TheApp)
     \<notin> set (trace (snd (applyEagerTweaks [hastyTweak, plainTweak] emptyApp)))
   \<and> (''Plain'', OnPlayerRefresh, ThePlayer 7)
     \<notin> set (trace (snd (Player_applyTweaks REFRESH [faultyTweak, plainTweak] 7 emptyApp)))
   \<and> (''Faulty'', OnPlayerRefresh, ThePlayer 9)
     \<notin> set (trace (snd (refreshPlayers [faultyTweak]
            [\<lparr>element = 7, isUIEnabled = True, ignoreNextUIMutation = False\<rparr>,
             \<lparr>element = 9, isUIEnabled = True, ignoreNextUIMutation = False\<rparr>] emptyApp)))"
  by (simp add: example_defs)


section \<open>Properties of focusNextPlayer\<close>

lemma indexOfFrom_first:
  assumes "i < length xs" and "xs ! i = x" and "\<forall>j < i. xs ! j \<noteq> x"
  shows "indexOfFrom k xs x = int (k + i)"
  using assms
proof (induction xs arbitrary: k i)
  case Nil
  then show ?case by simp
next
  case (Cons y ys)
  show ?case
  proof (cases i)
    case 0
    with Cons.prems show ?thesis by simp
  next
    case (Suc m)
    with Cons.prems have "y \<noteq> x" by auto
    moreover from Suc Cons.prems have "m < length ys" "ys ! m = x" "\<forall>j < m. ys ! j \<noteq> x"
      by auto
    ultimately show ?thesis using Cons.IH [of m "Suc k"] Suc by simp
  qed
qed

lemma js_rem_next: "0 < n \<Longrightarrow> js_rem (int i + 1) (int n) = int ((i + 1) mod n)"
  by (simp add: js_rem_def zmod_int ac_simps)

text \<open>
  C9: with no player tracked \<^verbatim>\<open>focusNextPlayer\<close> focuses nothing. With players tracked and
  none of them containing the focused element, \<^verbatim>\<open>focusedPlayer\<close> is \<^verbatim>\<open>undefined\<close>,
  \<^verbatim>\<open>indexOf\<close> gives \<open>-1\<close> and the first player is focused. When the first player that
  contains the focused element is at index \<open>i\<close>, the player at index
  \<open>(i + 1) mod\<close> the number of players is focused.
\<close>

theorem focusNextPlayer_cycles:
  "focusNextPlayer containsActive [] = None
   \<and> (ps \<noteq> [] \<and> (\<forall>p \<in> set ps. \<not> containsActive (element p)) \<longrightarrow>
        focusedPlayer containsActive ps = None
        \<and> indexOf ps (focusedPlayer containsActive ps) = - 1
        \<and> focusNextPlayer containsActive ps = Some (ps ! 0))
   \<and> (i < length ps \<and> containsActive (element (ps ! i))
        \<and> (\<forall>j < i. \<not> containsActive (element (ps ! j))) \<longrightarrow>
        focusedPlayer containsActive ps = Some (ps ! i)
        \<and> indexOf ps (focusedPlayer containsActive ps) = int i
        \<and> focusNextPlayer containsActive ps = Some (ps ! ((i + 1) mod length ps)))"
proof -
  have a: "focusNextPlayer containsActive [] = None"
    by (simp add: focusNextPlayer_def)
  have b: "focusedPlayer containsActive ps = None
        \<and> indexOf ps (focusedPlayer containsActive ps) = - 1
        \<and> focusNextPlayer containsActive ps = Some (ps ! 0)"
    if "ps \<noteq> []" and "\<forall>p \<in> set ps. \<not> containsActive (element p)"
  proof -
    from that(2) have f: "focusedPlayer containsActive ps = None"
      by (simp add: focusedPlayer_def find_None_iff)
    with that(1) show ?thesis
      by (simp add: focusNextPlayer_def indexOf_def js_rem_def js_index_def Let_def)
  qed
  have c: "focusedPlayer containsActive ps = Some (ps ! i)
        \<and> indexOf ps (focusedPlayer containsActive ps) = int i
        \<and> focusNextPlayer containsActive ps = Some (ps ! ((i + 1) mod length ps))"
    if "i < length ps" and "containsActive (element (ps ! i))"
      and "\<forall>j < i. \<not> containsActive (element (ps ! j))"
  proof -
    from that have f: "focusedPlayer containsActive ps = Some (ps ! i)"
      unfolding focusedPlayer_def find_Some_iff by blast
    from that have "\<forall>j < i. ps ! j \<noteq> ps ! i" by metis
    with that(1) have ix: "indexOfFrom 0 ps (ps ! i) = int i"
      using indexOfFrom_first [of i ps "ps ! i" 0] by simp
    from that(1) have n: "0 < length ps" by auto
    then have "(i + 1) mod length ps < length ps" by simp
    with f ix n show ?thesis
      by (simp add: focusNextPlayer_def indexOf_def js_rem_next [simplified] js_index_def Let_def)
  qed
  from a b c show ?thesis by blast
qed

theorem focusNextPlayer_cycles_witness:
  "focusNextPlayer (\<lambda>el. el = 9)
     [\<lparr>element = 7, isUIEnabled = True, ignoreNextUIMutation = False\<rparr>,
      \<lparr>element = 9, isUIEnabled = True, ignoreNextUIMutation = False\<rparr>] =
     Some \<lparr>element = 7, isUIEnabled = True, ignoreNextUIMutation = False\<rparr>
   \<and> focusNextPlayer (\<lambda>el. el = 7)
     [\<lparr>element = 7, isUIEnabled = True, ignoreNextUIMutation = False\<rparr>,
      \<lparr>element = 9, isUIEnabled = True, ignoreNextUIMutation = False\<rparr>] =
     Some \<lparr>element = 9, isUIEnabled = True, ignoreNextUIMutation = False\<rparr>
   \<and> focusNextPlayer (\<lambda>el. False)
     [\<lparr>element = 7, isUIEnabled = True, ignoreNextUIMutation = False\<rparr>,
      \<lparr>element = 9, isUIEnabled = True, ignoreNextUIMutation = False\<rparr>] =
     Some \<lparr>element = 7, isUIEnabled = True, ignoreNextUIMutation = False\<rparr>"
  using
    focusNextPlayer_cycles [of "\<lambda>el. el = 9"
      "[\<lparr>element = 7, isUIEnabled = True, ignoreNextUIMutation = False\<rparr>,
        \<lparr>element = 9, isUIEnabled = True, ignoreNextUIMutation = False\<rparr>]" 1]
    focusNextPlayer_cycles [of "\<lambda>el. el = 7"
      "[\<lparr>element = 7, isUIEnabled = True, ignoreNextUIMutation = False\<rparr>,
        \<lparr>element = 9, isUIEnabled = True, ignoreNextUIMutation = False\<rparr>]" 0]
    focusNextPlayer_cycles [of "\<lambda>el. False"
      "[\<lparr>element = 7, isUIEnabled = True, ignoreNextUIMutation = False\<rparr>,
        \<lparr>element = 9, isUIEnabled = True, ignoreNextUIMutation = False\<rparr>]" 0]
  by simp


section \<open>Properties of the UI toggle\<close>

lemma hideUI_children:
  "snd (hideUI (this, children)) =
     map (\<lambda>e. if isUIElement e
              then e\<lparr>oldDisplayStyle := Some (styleDisplay e), styleDisplay := ''none''\<rparr>
              else e) children"
  by (simp add: hideUI_def)

lemma hideUI_records:
  assumes "i < length children" and "isUIElement (children ! i)"
  shows "oldDisplayStyle (snd (hideUI (this, children)) ! i) = Some (styleDisplay (children ! i))
       \<and> styleDisplay (snd (hideUI (this, children)) ! i) = ''none''"
  using assms by (simp add: hideUI_children)

lemma hideUI_UIElements:
  "UIElements (snd (hideUI (this, children))) =
     map (\<lambda>e. e\<lparr>oldDisplayStyle := Some (styleDisplay e), styleDisplay := ''none''\<rparr>)
       (UIElements children)"
  by (induction children) (simp_all add: UIElements_def hideUI_def isUIElement_def)

lemma hideUI_UIElements_recorded:
  "map oldDisplayStyle (UIElements (snd (hideUI (this, children)))) =
     map (\<lambda>e. Some (styleDisplay e)) (UIElements children)
   \<and> map styleDisplay (UIElements (snd (hideUI (this, children)))) =
     map (\<lambda>e. ''none'') (UIElements children)"
  by (simp add: hideUI_UIElements o_def)

lemma show_hide_node:
  "styleDisplay
     (if isUIElement
           (if isUIElement e
            then e\<lparr>oldDisplayStyle := Some (styleDisplay e), styleDisplay := ''none''\<rparr> else e)
      then removeAttribute ''oldDisplayStyle''
             (set_styleDisplay
                (oldDisplayStyle
                   (if isUIElement e
                    then e\<lparr>oldDisplayStyle := Some (styleDisplay e), styleDisplay := ''none''\<rparr>
                    else e))
                (if isUIElement e
                 then e\<lparr>oldDisplayStyle := Some (styleDisplay e), styleDisplay := ''none''\<rparr>
                 else e))
      else (if isUIElement e
            then e\<lparr>oldDisplayStyle := Some (styleDisplay e), styleDisplay := ''none''\<rparr> else e))
   = styleDisplay e"
  by (simp add: isUIElement_def removeAttribute_def set_styleDisplay_def)

lemma showUI_hideUI_styles:
  "map styleDisplay (snd (showUI (hideUI (this, children)))) = map styleDisplay children"
  by (simp add: showUI_def hideUI_def o_def show_hide_node)

lemma showUI_hideUI_sheets:
  "map sheetDisplay (snd (showUI (hideUI (this, children)))) = map sheetDisplay children"
  by (simp add: showUI_def hideUI_def o_def isUIElement_def removeAttribute_def
      set_styleDisplay_def)

lemma computedDisplay_cong:
  assumes "map styleDisplay xs = map styleDisplay ys" and "map sheetDisplay xs = map sheetDisplay ys"
  shows "map computedDisplay xs = map computedDisplay ys"
proof (rule nth_equalityI)
  from assms(1) have len: "length xs = length ys" by (rule map_eq_imp_length_eq)
  then show "length (map computedDisplay xs) = length (map computedDisplay ys)" by simp
  fix i assume "i < length (map computedDisplay xs)"
  then have i: "i < length xs" "i < length ys" using len by simp_all
  from assms i have "styleDisplay (xs ! i) = styleDisplay (ys ! i)"
    "sheetDisplay (xs ! i) = sheetDisplay (ys ! i)"
    by (metis nth_map)+
  with i show "map computedDisplay xs ! i = map computedDisplay ys ! i"
    by (simp add: computedDisplay_def)
qed

lemma showUI_hideUI_flags:
  "isUIEnabled (fst (showUI (hideUI (this, children))))
   \<and> \<not> isUIEnabled (fst (hideUI (this, children)))"
  by (simp add: showUI_def hideUI_def)

lemma toggleUI_twice:
  "isUIEnabled this \<Longrightarrow> toggleUI (toggleUI (this, children)) = showUI (hideUI (this, children))"
  by (simp add: toggleUI_def hideUI_def)

text \<open>The observer's callback for the mutations of \<^verbatim>\<open>hideUI\<close> itself is ignored.\<close>

lemma UIMutationHandler_after_hideUI:
  "snd (UIMutationHandler mutations (hideUI (this, children))) = snd (hideUI (this, children))"
  by (simp add: UIMutationHandler_def hideUI_def)

subsection \<open>The older toggle\<close>

lemma forEachAt_length [simp]: "length (forEachAt f positions xs) = length xs"
  unfolding forEachAt_def by (induction positions arbitrary: xs) simp_all

lemma forEachAt_nth:
  assumes "distinct positions" and "j < length xs"
  shows "forEachAt f positions xs ! j = (if j \<in> set positions then f (xs ! j) else xs ! j)"
  using assms
proof (induction positions arbitrary: xs)
  case Nil
  then show ?case by (simp add: forEachAt_def)
next
  case (Cons i positions)
  let ?ys = "if i < length xs then xs[i := f (xs ! i)] else xs"
  have step: "forEachAt f (i # positions) xs = forEachAt f positions ?ys"
    by (simp add: forEachAt_def)
  from Cons.prems have d: "distinct positions" "i \<notin> set positions" by simp_all
  have len: "j < length ?ys" using Cons.prems(2) by simp
  from Cons.IH [OF d(1) len]
  have ih: "forEachAt f positions ?ys ! j = (if j \<in> set positions then f (?ys ! j) else ?ys ! j)" .
  show ?case
  proof (cases "j = i")
    case True
    with d(2) ih Cons.prems(2) show ?thesis unfolding step by simp
  next
    case False
    with ih Cons.prems(2) show ?thesis unfolding step by simp
  qed
qed

lemma toggleUI_old_records:
  assumes "distinct ui" and "isUIEnabled this" and "i \<in> set ui" and "i < length es"
  shows "oldStyle (snd (toggleUI_old ui (this, es)) ! i) = Some (computedDisplay (es ! i))
       \<and> styleDisplay (snd (toggleUI_old ui (this, es)) ! i) = ''none''"
  using assms by (simp add: toggleUI_old_def forEachAt_nth)

lemma toggleUI_old_twice:
  assumes "distinct ui" and "isUIEnabled this"
    and "\<forall>i \<in> set ui. i < length es \<and> computedDisplay (es ! i) \<noteq> ''''"
  shows "map computedDisplay (snd (toggleUI_old ui (toggleUI_old ui (this, es)))) =
           map computedDisplay es"
proof -
  define hide :: "node \<Rightarrow> node" where
    "hide = (\<lambda>e. e\<lparr>oldStyle := Some (computedDisplay e), styleDisplay := ''none''\<rparr>)"
  define restore :: "node \<Rightarrow> node" where
    "restore = (\<lambda>e. (case oldStyle e of
                       None \<Rightarrow> e\<lparr>styleDisplay := ''initial''\<rparr>
                     | Some d \<Rightarrow> if d \<noteq> '''' then e\<lparr>styleDisplay := d\<rparr>
                                 else e\<lparr>styleDisplay := ''initial''\<rparr>))"
  have twice: "snd (toggleUI_old ui (toggleUI_old ui (this, es))) =
      forEachAt restore ui (forEachAt hide ui es)"
    using assms(2) by (simp add: toggleUI_old_def hide_def restore_def)
  have "computedDisplay (forEachAt restore ui (forEachAt hide ui es) ! j) =
      computedDisplay (es ! j)" if j: "j < length es" for j
  proof (cases "j \<in> set ui")
    case False
    with j assms(1) show ?thesis by (simp add: forEachAt_nth)
  next
    case True
    with assms(3) have "computedDisplay (es ! j) \<noteq> ''''" by simp
    with True j assms(1) show ?thesis
      by (simp add: forEachAt_nth hide_def restore_def computedDisplay_def)
  qed
  then show ?thesis
    unfolding twice by (intro nth_equalityI) simp_all
qed

text \<open>
  Why the older toggle needs every element matched once: an element that two selectors match
  is visited twice, the second visit records \<^verbatim>\<open>none\<close>, and the element stays hidden.
\<close>

lemma toggleUI_old_double_match:
  "map computedDisplay
     (snd (toggleUI_old [1, 1] (toggleUI_old [1, 1]
        (examplePlayer, [exampleVideo, exampleControls, exampleOverlay])))) =
     [''block'', ''none'', ''flex'']"
  by (simp add: toggleUI_old_def forEachAt_def computedDisplay_def examplePlayer_def
      exampleVideo_def exampleControls_def exampleOverlay_def)

text \<open>
  C4, as the code has it. \<^verbatim>\<open>hideUI\<close> followed at once by \<^verbatim>\<open>showUI\<close> gives every child of
  the player's element the inline display style, and so the computed display, that it had
  before, and leaves the UI enabled; \<^verbatim>\<open>hideUI\<close> records the inline display style of each UI
  element before it sets \<^verbatim>\<open>none\<close>; two calls of \<^verbatim>\<open>toggleUI\<close> on an enabled UI are this
  pair. In the older version, whose toggle records the computed display, two calls of
  \<^verbatim>\<open>toggleUI\<close> on an enabled UI restore the computed display of every element, when no
  element is matched twice and every matched element has a computed display.
\<close>

theorem hideUI_showUI_round_trip:
  "map styleDisplay (snd (showUI (hideUI (this, children)))) = map styleDisplay children
   \<and> map computedDisplay (snd (showUI (hideUI (this, children)))) = map computedDisplay children
   \<and> isUIEnabled (fst (showUI (hideUI (this, children))))
   \<and> map oldDisplayStyle (UIElements (snd (hideUI (this, children)))) =
       map (\<lambda>e. Some (styleDisplay e)) (UIElements children)
   \<and> map styleDisplay (UIElements (snd (hideUI (this, children)))) =
       map (\<lambda>e. ''none'') (UIElements children)
   \<and> (isUIEnabled this \<longrightarrow>
         toggleUI (toggleUI (this, children)) = showUI (hideUI (this, children)))
   \<and> (distinct ui \<and> isUIEnabled this
        \<and> (\<forall>i \<in> set ui. i < length children \<and> computedDisplay (children ! i) \<noteq> '''') \<longrightarrow>
         map computedDisplay (snd (toggleUI_old ui (toggleUI_old ui (this, children)))) =
           map computedDisplay children
         \<and> (\<forall>i \<in> set ui.
              oldStyle (snd (toggleUI_old ui (this, children)) ! i) =
                Some (computedDisplay (children ! i))))"
proof -
  have a: "map computedDisplay (snd (showUI (hideUI (this, children)))) =
      map computedDisplay children"
    using showUI_hideUI_styles showUI_hideUI_sheets by (rule computedDisplay_cong)
  note b = hideUI_UIElements_recorded [of this children]
  have c: "map computedDisplay (snd (toggleUI_old ui (toggleUI_old ui (this, children)))) =
           map computedDisplay children
         \<and> (\<forall>i \<in> set ui.
              oldStyle (snd (toggleUI_old ui (this, children)) ! i) =
                Some (computedDisplay (children ! i)))"
    if "distinct ui" "isUIEnabled this"
      "\<forall>i \<in> set ui. i < length children \<and> computedDisplay (children ! i) \<noteq> ''''"
    using that toggleUI_old_twice [of ui this children] toggleUI_old_records [of ui this _ children]
    by blast
  from a b c showUI_hideUI_styles [of this children] showUI_hideUI_flags [of this children]
    toggleUI_twice [of this children]
  show ?thesis by blast
qed

theorem hideUI_showUI_round_trip_witness:
  "map styleDisplay
     (snd (showUI (hideUI (examplePlayer, [exampleVideo, exampleControls, exampleOverlay])))) =
     ['''', '''', ''flex'']
   \<and> map computedDisplay
     (snd (showUI (hideUI (examplePlayer, [exampleVideo, exampleControls, exampleOverlay])))) =
     [''block'', ''flex'', ''flex'']
   \<and> map styleDisplay
     (snd (hideUI (examplePlayer, [exampleVideo, exampleControls, exampleOverlay]))) =
     ['''', ''none'', ''none'']
   \<and> isUIEnabled examplePlayer \<and> distinct [1, 2 :: nat]
   \<and> map computedDisplay
     (snd (toggleUI_old [1, 2] (toggleUI_old [1, 2]
        (examplePlayer, [exampleVideo, exampleControls, exampleOverlay])))) =
     [''block'', ''flex'', ''flex'']"
proof -
  let ?cs = "[exampleVideo, exampleControls, exampleOverlay]"
  note rt = hideUI_showUI_round_trip [of examplePlayer ?cs "[1, 2]"]
  have en: "isUIEnabled examplePlayer" by (simp add: examplePlayer_def)
  have pre: "distinct [1, 2 :: nat] \<and> isUIEnabled examplePlayer
        \<and> (\<forall>i \<in> set [1, 2]. i < length ?cs \<and> computedDisplay (?cs ! i) \<noteq> '''')"
    by (simp add: examplePlayer_def computedDisplay_def exampleControls_def exampleOverlay_def)
  have s: "map styleDisplay ?cs = ['''', '''', ''flex'']"
    and c: "map computedDisplay ?cs = [''block'', ''flex'', ''flex'']"
    by (simp_all add: computedDisplay_def exampleVideo_def exampleControls_def exampleOverlay_def)
  have h: "map styleDisplay (snd (hideUI (examplePlayer, ?cs))) = ['''', ''none'', ''none'']"
    by (simp add: hideUI_def isUIElement_def exampleVideo_def exampleControls_def
        exampleOverlay_def)
  from rt pre have "map computedDisplay (snd (toggleUI_old [1, 2] (toggleUI_old [1, 2]
        (examplePlayer, ?cs)))) = map computedDisplay ?cs" by blast
  moreover from rt have "map styleDisplay (snd (showUI (hideUI (examplePlayer, ?cs)))) =
      map styleDisplay ?cs"
    and "map computedDisplay (snd (showUI (hideUI (examplePlayer, ?cs)))) =
      map computedDisplay ?cs" by blast+
  ultimately show ?thesis using s c h en by simp
qed

text \<open>
  C4 as the specification words it fails: for the controls bar, whose display \<^verbatim>\<open>flex\<close> comes
  from the style sheets, \<^verbatim>\<open>hideUI\<close> records the empty inline style and not the computed
  display, and after \<^verbatim>\<open>showUI\<close> the record is still on the element.
\<close>

theorem hideUI_records_inline_style:
  "map oldDisplayStyle (snd (hideUI (examplePlayer, [exampleControls])))
     \<noteq> [Some (computedDisplay exampleControls)]
   \<and> map oldDisplayStyle (snd (showUI (hideUI (examplePlayer, [exampleControls])))) \<noteq> [None]"
  by (simp add: hideUI_def showUI_def isUIElement_def removeAttribute_def set_styleDisplay_def
      computedDisplay_def exampleControls_def examplePlayer_def)


end
